theory Spec2Isabelle
  imports Main "HOL-Library.Word"
begin

section \<open>Strings\<close>

text \<open>
  The text of a block is a JavaScript string: a sequence of UTF-16 code units, and
  \<open>length\<close> counts code units, as \<open>String.prototype.length\<close> does. Identifiers
  (tag names, block types, style names, attribute names and values, class names, keys)
  are ASCII in this program and are kept as \<open>string\<close>.
\<close>

type_synonym jsstring = "16 word list"

definition SPACE :: jsstring where
  "SPACE = [0x20]"

definition LF :: "16 word" where
  "LF = 0x0A"

definition CR :: "16 word" where
  "CR = 0x0D"

text \<open>
  The characters removed by \<open>trim\<close>, \<open>trimLeft\<close> and \<open>trimRight\<close>: the
  WhiteSpace and LineTerminator productions of ECMAScript.
\<close>

definition isWhiteSpace :: "16 word \<Rightarrow> bool" where
  "isWhiteSpace c \<longleftrightarrow>
     c = 0x09 \<or> c = 0x0A \<or> c = 0x0B \<or> c = 0x0C \<or> c = 0x0D \<or> c = 0x20 \<or> c = 0xA0 \<or>
     c = 0x1680 \<or> (0x2000 \<le> c \<and> c \<le> 0x200A) \<or> c = 0x2028 \<or> c = 0x2029 \<or>
     c = 0x202F \<or> c = 0x205F \<or> c = 0x3000 \<or> c = 0xFEFF"

definition trimLeft :: "jsstring \<Rightarrow> jsstring" where
  "trimLeft s = dropWhile isWhiteSpace s"

definition trimRight :: "jsstring \<Rightarrow> jsstring" where
  "trimRight s = rev (dropWhile isWhiteSpace (rev s))"

definition trim :: "jsstring \<Rightarrow> jsstring" where
  "trim s = trimRight (trimLeft s)"

text \<open>
  \<open>sliceList begin end\<close> of a string or of an immutable list, for \<open>0 \<le> begin \<le> end\<close>,
  the only way the program calls it; an \<open>end\<close> beyond the length is clamped.
\<close>

definition sliceList :: "nat \<Rightarrow> nat \<Rightarrow> 'a list \<Rightarrow> 'a list" where
  "sliceList b e xs = take (e - b) (drop b xs)"

text \<open>\<open>toLowerCase\<close> on a tag name.\<close>

definition toLowerCase :: "string \<Rightarrow> string" where
  "toLowerCase s =
     map (\<lambda>c. case map_of (zip ''ABCDEFGHIJKLMNOPQRSTUVWXYZ'' ''abcdefghijklmnopqrstuvwxyz'') c of
                 None \<Rightarrow> c | Some d \<Rightarrow> d) s"

text \<open>
  Replacing every match of a literal pattern, scanning from the left, as
  \<open>replace\<close> with a global regular expression of a literal does. The pattern is
  given as its first code unit and the rest.
\<close>

function replaceAll :: "16 word \<Rightarrow> jsstring \<Rightarrow> jsstring \<Rightarrow> jsstring \<Rightarrow> jsstring" where
  "replaceAll p ps r [] = []"
| "replaceAll p ps r (c # cs) =
     (if c = p \<and> take (length ps) cs = ps
      then r @ replaceAll p ps r (drop (length ps) cs)
      else c # replaceAll p ps r cs)"
  by pat_completeness auto
termination
  by (relation "measure (\<lambda>(p, ps, r, s). length s)") auto

text \<open>
  Removing every match of the pattern followed by an optional semicolon
  (\<open>&#13;?\<close> and \<open>&#8203;?\<close>).
\<close>

function removeOptSemi :: "16 word \<Rightarrow> jsstring \<Rightarrow> jsstring \<Rightarrow> jsstring" where
  "removeOptSemi p ps [] = []"
| "removeOptSemi p ps (c # cs) =
     (if c = p \<and> take (length ps) cs = ps
      then (case drop (length ps) cs of
              [] \<Rightarrow> []
            | d # ds \<Rightarrow> if d = 0x3B then removeOptSemi p ps ds else removeOptSemi p ps (d # ds))
      else c # removeOptSemi p ps cs)"
  by pat_completeness auto
termination
proof (relation "measure (\<lambda>(p, ps, s). length s)", goal_cases)
  case 1
  show ?case by simp
next
  case (2 p ps c cs d ds)
  have "length (d # ds) \<le> length cs"
    using 2(2) by (metis length_drop diff_le_self)
  then show ?case by simp
next
  case (3 p ps c cs d ds)
  have "length (d # ds) \<le> length cs"
    using 3(2) by (metis length_drop diff_le_self)
  then show ?case by simp
next
  case 4
  show ?case by simp
qed

section \<open>The node tree\<close>

text \<open>
  A node of the tree the walker receives. \<open>iface\<close> is the most specific of the DOM
  interfaces the program tests with \<open>instanceof\<close>; every interface but \<open>Node\<close> is
  an \<open>HTMLElement\<close>. The other fields are the properties the program reads.
\<close>

datatype iface = HTMLAnchorElement | HTMLImageElement | HTMLElement | PlainNode

datatype node = Node
  (nodeName: string)
  (iface: iface)
  (textContent: jsstring)
  (attributes: "(string \<times> string) list")
  (classList: "string list")
  (href: string)
  (protocol: string)
  (fontWeight: string)
  (fontStyle: string)
  (textDecoration: string)
  (childNodes: "node list")

definition isHTMLElement :: "node \<Rightarrow> bool" where
  "isHTMLElement n \<longleftrightarrow> iface n \<noteq> PlainNode"

text \<open>
  \<open>attributes\<close> holds the attributes under the names the element stores, which are in
  lower case for an element of an HTML document. \<open>getAttribute\<close> and
  \<open>attributes.getNamedItem\<close> turn the name they are given to lower case before they
  look it up, so the name \<open>className\<close> reads the attribute \<open>classname\<close>.
\<close>

definition getAttribute :: "node \<Rightarrow> string \<Rightarrow> string option" where
  "getAttribute n a = map_of (attributes n) (toLowerCase a)"

definition getNamedItem :: "node \<Rightarrow> string \<Rightarrow> string option" where
  "getNamedItem n a = map_of (attributes n) (toLowerCase a)"

text \<open>Truthiness of a string-or-null value: null and the empty string are falsy.\<close>

definition truthy :: "string option \<Rightarrow> bool" where
  "truthy v \<longleftrightarrow> (case v of None \<Rightarrow> False | Some s \<Rightarrow> s \<noteq> [])"

section \<open>Character metadata, entities and block descriptors\<close>

text \<open>
  An ordered set of inline styles: a list without repetition, in order of insertion.
\<close>

definition orderedSetAdd :: "string list \<Rightarrow> string \<Rightarrow> string list" where
  "orderedSetAdd xs x = (if x \<in> set xs then xs else xs @ [x])"

definition orderedSetRemove :: "string list \<Rightarrow> string \<Rightarrow> string list" where
  "orderedSetRemove xs x = filter (\<lambda>y. y \<noteq> x) xs"

record characterMetadata =
  style :: "string list"
  entity :: "nat option"

definition getEntity :: "characterMetadata \<Rightarrow> nat option" where
  "getEntity m = entity m"

definition hasStyle :: "string \<Rightarrow> characterMetadata \<Rightarrow> bool" where
  "hasStyle s m \<longleftrightarrow> s \<in> set (style m)"

record draftEntity =
  entityType :: string
  mutability :: string
  entityData :: "(string \<times> string) list"

text \<open>
  Modelled from the spec: the entity registry (module DraftEntity, not among the
  sources). \<open>create(type, mutability, attributes)\<close> stores the entity and returns an id
  that is unique and stable for the registry's lifetime. The registry is the list of the
  entities in creation order and the id of an entity is its position in that list.
\<close>

definition entityCreate ::
    "draftEntity list \<Rightarrow> string \<Rightarrow> string \<Rightarrow> (string \<times> string) list \<Rightarrow> nat \<times> draftEntity list" where
  "entityCreate reg t m d =
     (length reg, reg @ [\<lparr>entityType = t, mutability = m, entityData = d\<rparr>])"

text \<open>
  The block descriptor (ContentBlockConfig). The fields \<open>key\<close>, \<open>type\<close>, \<open>text\<close>,
  \<open>characterList\<close>, \<open>depth\<close>, \<open>parent\<close>, \<open>children\<close>, \<open>prevSibling\<close>,
  \<open>nextSibling\<close> of the source carry the prefix \<open>cfg\<close> here.
\<close>

datatype blockConfig = BlockConfig
  (cfgKey: string)
  (cfgType: string)
  (cfgText: jsstring)
  (cfgCharacterList: "characterMetadata list")
  (cfgDepth: nat)
  (cfgParent: "string option")
  (cfgChildren: "string list")
  (cfgPrevSibling: "string option")
  (cfgNextSibling: "string option")
  (childConfigs: "blockConfig list")

text \<open>
  The output blocks. A ContentBlock keeps the key, type, text, character list and depth
  it is given; a ContentBlockNode keeps the links as well. In flat mode an entry of the
  character list can be \<open>undefined\<close> (\<open>None\<close>): the separator pushes
  \<open>characterList.last()\<close>, which is \<open>undefined\<close> on an empty list.
\<close>

record contentBlock =
  cbKey :: string
  cbType :: string
  cbText :: jsstring
  cbCharacterList :: "characterMetadata option list"
  cbDepth :: nat

record contentBlockNode =
  nodeKey :: string
  nodeType :: string
  nodeText :: jsstring
  nodeCharacterList :: "characterMetadata list"
  nodeDepth :: nat
  nodeParent :: "string option"
  nodeChildren :: "string list"
  nodePrevSibling :: "string option"
  nodeNextSibling :: "string option"

datatype blockNodeRecord = ContentBlock contentBlock | ContentBlockNode contentBlockNode

fun blockText :: "blockNodeRecord \<Rightarrow> jsstring" where
  "blockText (ContentBlock b) = cbText b"
| "blockText (ContentBlockNode n) = nodeText n"

fun blockCharacterList :: "blockNodeRecord \<Rightarrow> characterMetadata option list" where
  "blockCharacterList (ContentBlock b) = cbCharacterList b"
| "blockCharacterList (ContentBlockNode n) = map Some (nodeCharacterList n)"

section \<open>The block type map\<close>

text \<open>A tag maps to one block type or to a list of candidates.\<close>

datatype blockTypeEntry = Str string | Arr "string list"

record renderDesc =
  element :: string
  aliasedElements :: "string list option"

text \<open>
  \<open>blockTypeMap\<close> is a plain object while it is built, so it inherits the properties of
  \<open>Object.prototype\<close>. For an element with one of these names that the object does not
  have as its own property, \<open>blockTypeMap[element]\<close> is the inherited value: it is not
  \<open>undefined\<close> and not a string, it has no \<open>push\<close>, and the call of \<open>push\<close> throws
  a TypeError.
\<close>

datatype error = TypeError

definition objectPrototypeNames :: "string list" where
  "objectPrototypeNames =
     [''constructor'', ''__defineGetter__'', ''__defineSetter__'', ''hasOwnProperty'',
      ''__lookupGetter__'', ''__lookupSetter__'', ''isPrototypeOf'', ''propertyIsEnumerable'',
      ''toString'', ''valueOf'', ''__proto__'', ''toLocaleString'']"

definition addElement ::
    "string \<Rightarrow> string \<Rightarrow> (string \<rightharpoonup> blockTypeEntry) \<Rightarrow> error + (string \<rightharpoonup> blockTypeEntry)" where
  "addElement blockType el m =
     (case m el of
        None \<Rightarrow> if el \<in> set objectPrototypeNames then Inl TypeError
                else Inr (m(el \<mapsto> Str blockType))
      | Some (Str s) \<Rightarrow> Inr (m(el \<mapsto> Arr [s, blockType]))
      | Some (Arr ss) \<Rightarrow> Inr (m(el \<mapsto> Arr (ss @ [blockType]))))"

text \<open>\<open>elements.forEach\<close>: the elements in order, up to the first one that throws.\<close>

fun addElements ::
    "string \<Rightarrow> string list \<Rightarrow> (string \<rightharpoonup> blockTypeEntry) \<Rightarrow> error + (string \<rightharpoonup> blockTypeEntry)" where
  "addElements blockType [] m = Inr m"
| "addElements blockType (el # els) m =
     (case addElement blockType el m of
        Inl e \<Rightarrow> Inl e
      | Inr m' \<Rightarrow> addElements blockType els m')"

definition elementsOf :: "renderDesc \<Rightarrow> string list" where
  "elementsOf desc =
     element desc # (case aliasedElements desc of None \<Rightarrow> [] | Some als \<Rightarrow> als)"

text \<open>
  The render map is given as the list of its entries in the order \<open>mapKeys\<close> visits them.
\<close>

fun mapKeysFrom ::
    "(string \<times> renderDesc) list \<Rightarrow> (string \<rightharpoonup> blockTypeEntry) \<Rightarrow> error + (string \<rightharpoonup> blockTypeEntry)" where
  "mapKeysFrom [] m = Inr m"
| "mapKeysFrom ((blockType, desc) # rest) m =
     (case addElements blockType (elementsOf desc) m of
        Inl e \<Rightarrow> Inl e
      | Inr m' \<Rightarrow> mapKeysFrom rest m')"

definition buildBlockTypeMap ::
    "(string \<times> renderDesc) list \<Rightarrow> error + (string \<rightharpoonup> blockTypeEntry)" where
  "buildBlockTypeMap blockRenderMap = mapKeysFrom blockRenderMap Map.empty"

text \<open>
  Modelled from the spec: the default render map (module DefaultDraftBlockRenderMap, not
  among the sources): headers, blockquote, preformatted, figure to atomic, div and
  paragraph to unstyled, list item to the ordered and unordered candidates, in the order
  of the comment above \<open>buildBlockTypeMap\<close>.
\<close>

definition DefaultDraftBlockRenderMap :: "(string \<times> renderDesc) list" where
  "DefaultDraftBlockRenderMap =
     [(''header-one'', \<lparr>element = ''h1'', aliasedElements = None\<rparr>),
      (''header-two'', \<lparr>element = ''h2'', aliasedElements = None\<rparr>),
      (''header-three'', \<lparr>element = ''h3'', aliasedElements = None\<rparr>),
      (''header-four'', \<lparr>element = ''h4'', aliasedElements = None\<rparr>),
      (''header-five'', \<lparr>element = ''h5'', aliasedElements = None\<rparr>),
      (''header-six'', \<lparr>element = ''h6'', aliasedElements = None\<rparr>),
      (''blockquote'', \<lparr>element = ''blockquote'', aliasedElements = None\<rparr>),
      (''atomic'', \<lparr>element = ''figure'', aliasedElements = None\<rparr>),
      (''code-block'', \<lparr>element = ''pre'', aliasedElements = None\<rparr>),
      (''unstyled'', \<lparr>element = ''div'', aliasedElements = Some [''p'']\<rparr>),
      (''ordered-list-item'', \<lparr>element = ''li'', aliasedElements = None\<rparr>),
      (''unordered-list-item'', \<lparr>element = ''li'', aliasedElements = None\<rparr>)]"

section \<open>List item depth\<close>

text \<open>
  \<open>cx\<close> of the fbjs library, on one class name: every slash becomes a hyphen.
\<close>

definition cx :: "string \<Rightarrow> string" where
  "cx s = map (\<lambda>c. if c = CHR ''/'' then CHR ''-'' else c) s"

text \<open>
  \<open>_defineProperty\<close> on an object kept as the list of its entries in insertion order:
  an existing key keeps its place and takes the new value, a new key goes to the end.
\<close>

fun defineProperty :: "(string \<times> nat) list \<Rightarrow> string \<Rightarrow> nat \<Rightarrow> (string \<times> nat) list" where
  "defineProperty [] k v = [(k, v)]"
| "defineProperty ((k', v') # obj) k v =
     (if k' = k then (k, v) # obj else (k', v') # defineProperty obj k v)"

definition knownListItemDepthClasses :: "(string \<times> nat) list" where
  "knownListItemDepthClasses =
     defineProperty (defineProperty (defineProperty (defineProperty (defineProperty []
       (cx ''public/DraftStyleDefault/depth0'') 0)
       (cx ''public/DraftStyleDefault/depth1'') 1)
       (cx ''public/DraftStyleDefault/depth2'') 2)
       (cx ''public/DraftStyleDefault/depth3'') 3)
       (cx ''public/DraftStyleDefault/depth4'') 4"

text \<open>
  The callback of \<open>some\<close> returns nothing, so \<open>some\<close> visits every key, in the
  order of \<open>Object.keys\<close>, each key with its own value. \<open>depth\<close> is the optional
  second argument; the one call of the program omits it (\<open>getListItemDepth0\<close>).
\<close>

definition getListItemDepth :: "node \<Rightarrow> nat \<Rightarrow> nat" where
  "getListItemDepth n depth =
     fold (\<lambda>(depthClass, v) d. if depthClass \<in> set (classList n) then v else d)
       knownListItemDepthClasses depth"

definition getListItemDepth0 :: "node \<Rightarrow> nat" where
  "getListItemDepth0 n = getListItemDepth n 0"

text \<open>Validity of links and images.\<close>

definition isValidAnchor :: "node \<Rightarrow> bool" where
  "isValidAnchor n \<longleftrightarrow>
     iface n = HTMLAnchorElement \<and> href n \<noteq> [] \<and>
     (protocol n = ''http:'' \<or> protocol n = ''https:'' \<or> protocol n = ''mailto:'')"

definition isValidImage :: "node \<Rightarrow> bool" where
  "isValidImage n \<longleftrightarrow> iface n = HTMLImageElement \<and> truthy (getNamedItem n ''src'')"

section \<open>The builder\<close>

text \<open>
  What the module takes from its surroundings: the feature flag read once from
  \<open>gkx\<close>, the key generator (the key returned by its n-th call) and the entity
  registry as it is when the conversion starts.
\<close>

record modules =
  experimentalTreeDataSupport :: bool
  generateRandomKey :: "nat \<Rightarrow> string"
  DraftEntity :: "draftEntity list"

text \<open>
  The state of a ContentBlocksBuilder. \<open>keysDrawn\<close> counts the calls of the key
  generator so far.
\<close>

record builder =
  characterList :: "characterMetadata list"
  blockConfigs :: "blockConfig list"
  currentBlockType :: string
  currentDepth :: nat
  currentEntity :: "nat option"
  currentStyle :: "string list"
  currentText :: jsstring
  entityMap :: "draftEntity list"
  wrapper :: string
  contentBlocks :: "blockNodeRecord list"
  blockTypeMap :: "string \<rightharpoonup> blockTypeEntry"
  disambiguate :: "string \<Rightarrow> string \<Rightarrow> string option"
  keysDrawn :: nat

definition clear :: "modules \<Rightarrow> builder \<Rightarrow> builder" where
  "clear M b =
     b\<lparr>characterList := [], blockConfigs := [], currentBlockType := ''unstyled'',
       currentDepth := 0, currentEntity := None, currentStyle := [], currentText := [],
       entityMap := DraftEntity M, wrapper := ''ul'', contentBlocks := []\<rparr>"

definition newBuilder ::
    "modules \<Rightarrow> (string \<rightharpoonup> blockTypeEntry) \<Rightarrow> (string \<Rightarrow> string \<Rightarrow> string option) \<Rightarrow> builder" where
  "newBuilder M btm dis =
     (clear M \<lparr>characterList = [], blockConfigs = [], currentBlockType = [],
        currentDepth = 0, currentEntity = None, currentStyle = [], currentText = [],
        entityMap = [], wrapper = [], contentBlocks = [], blockTypeMap = Map.empty,
        disambiguate = (\<lambda>_ _. None), keysDrawn = 0\<rparr>)
     \<lparr>blockTypeMap := btm, disambiguate := dis\<rparr>"

definition addStyle :: "string \<Rightarrow> builder \<Rightarrow> builder" where
  "addStyle inlineStyle b = b\<lparr>currentStyle := orderedSetAdd (currentStyle b) inlineStyle\<rparr>"

definition removeStyle :: "string \<Rightarrow> builder \<Rightarrow> builder" where
  "removeStyle inlineStyle b = b\<lparr>currentStyle := orderedSetRemove (currentStyle b) inlineStyle\<rparr>"

text \<open>
  \<open>_makeBlockConfig\<close>, called with no argument (\<open>None\<close>) or with the key, the child
  descriptors and the type. The properties of the argument override the defaults, so a
  given key is the key of the descriptor even when it is the empty string; a key is
  drawn when none is given or the given one is falsy.
\<close>

definition makeBlockConfig ::
    "modules \<Rightarrow> (string \<times> blockConfig list \<times> string) option \<Rightarrow> builder \<Rightarrow> blockConfig \<times> builder" where
  "makeBlockConfig M config b =
     (let reset = (\<lambda>n. b\<lparr>characterList := [], currentBlockType := ''unstyled'',
                          currentDepth := 0, currentText := [], keysDrawn := n\<rparr>)
      in case config of
           None \<Rightarrow>
             (BlockConfig (generateRandomKey M (keysDrawn b)) (currentBlockType b) (currentText b)
                (characterList b) (currentDepth b) None [] None None [],
              reset (Suc (keysDrawn b)))
         | Some (k, kids, t) \<Rightarrow>
             (BlockConfig k t (currentText b) (characterList b) (currentDepth b)
                None [] None None kids,
              reset (if k \<noteq> [] then keysDrawn b else Suc (keysDrawn b))))"

definition appendText :: "jsstring \<Rightarrow> builder \<Rightarrow> builder" where
  "appendText txt b =
     (let characterMetadata = \<lparr>style = currentStyle b, entity = currentEntity b\<rparr>
      in b\<lparr>currentText := currentText b @ txt,
           characterList := characterList b @ replicate (length txt) characterMetadata\<rparr>)"

text \<open>\<open>findEntry\<close>: the index and the value of the first entry that satisfies the predicate.\<close>

fun findEntry :: "('a \<Rightarrow> bool) \<Rightarrow> 'a list \<Rightarrow> (nat \<times> 'a) option" where
  "findEntry p [] = None"
| "findEntry p (x # xs) =
     (if p x then Some (0, x)
      else (case findEntry p xs of None \<Rightarrow> None | Some (i, v) \<Rightarrow> Some (Suc i, v)))"

definition trimCurrentText :: "builder \<Rightarrow> builder" where
  "trimCurrentText b =
     (let l = length (currentText b);
          begin0 = l - length (trimLeft (currentText b));
          end0 = length (trimRight (currentText b));
          begin = (case findEntry (\<lambda>m. getEntity m \<noteq> None) (characterList b) of
                     Some ent \<Rightarrow> min begin0 (fst ent) | None \<Rightarrow> begin0);
          end = (case findEntry (\<lambda>m. getEntity m \<noteq> None) (rev (characterList b)) of
                   Some ent \<Rightarrow> max end0 (l - fst ent) | None \<Rightarrow> end0)
      in if begin > end
         then b\<lparr>currentText := [], characterList := []\<rparr>
         else b\<lparr>currentText := sliceList begin end (currentText b),
                characterList := sliceList begin end (characterList b)\<rparr>)"

definition addTextNode :: "node \<Rightarrow> builder \<Rightarrow> builder" where
  "addTextNode n b =
     (let text0 = textContent n;
          trimmedText = trim text0;
          text1 = (if trimmedText = [] \<and> wrapper b \<noteq> ''pre'' then SPACE else text0);
          text2 = (if wrapper b \<noteq> ''pre'' then replaceAll LF [] SPACE text1 else text1)
      in appendText text2 b)"

definition imgAttr :: "string list" where
  "imgAttr = [''alt'', ''className'', ''height'', ''src'', ''width'']"

definition anchorAttr :: "string list" where
  "anchorAttr = [''className'', ''href'', ''rel'', ''target'', ''title'']"

text \<open>The attributes of the allow-list that the node carries with a truthy value.\<close>

definition collectAttributes :: "node \<Rightarrow> string list \<Rightarrow> (string \<times> string) list" where
  "collectAttributes n attrs =
     List.map_filter (\<lambda>attr. if truthy (getAttribute n attr)
                              then map_option (Pair attr) (getAttribute n attr) else None) attrs"

text \<open>The image placeholder: U+1F4F7, two code units.\<close>

definition imagePlaceholder :: jsstring where
  "imagePlaceholder = [0xD83D, 0xDCF7]"

definition addImgNode :: "node \<Rightarrow> builder \<Rightarrow> builder" where
  "addImgNode n b =
     (if iface n \<noteq> HTMLImageElement then b
      else let entityConfig = collectAttributes n imgAttr;
               (k, reg) = entityCreate (entityMap b) ''IMAGE'' ''MUTABLE'' entityConfig;
               b1 = b\<lparr>entityMap := reg, currentEntity := Some k\<rparr>;
               b2 = appendText imagePlaceholder b1
           in b2\<lparr>currentEntity := None\<rparr>)"

definition boldValues :: "string list" where
  "boldValues = [''bold'', ''bolder'', ''500'', ''600'', ''700'', ''800'', ''900'']"

definition notBoldValues :: "string list" where
  "notBoldValues = [''light'', ''lighter'', ''100'', ''200'', ''300'', ''400'']"

definition updateStyleFromNodeAttributes :: "node \<Rightarrow> builder \<Rightarrow> builder" where
  "updateStyleFromNodeAttributes n b =
     (if \<not> isHTMLElement n then b
      else let b1 = (if fontWeight n \<in> set boldValues then addStyle ''BOLD'' b
                     else if fontWeight n \<in> set notBoldValues then removeStyle ''BOLD'' b
                     else b);
               b2 = (if fontStyle n = ''italic'' then addStyle ''ITALIC'' b1
                     else if fontStyle n = ''normal'' then removeStyle ''ITALIC'' b1
                     else b1);
               b3 = (if textDecoration n = ''underline'' then addStyle ''UNDERLINE'' b2 else b2);
               b4 = (if textDecoration n = ''line-through'' then addStyle ''STRIKETHROUGH'' b3 else b3)
           in if textDecoration n = ''none''
              then removeStyle ''STRIKETHROUGH'' (removeStyle ''UNDERLINE'' b4)
              else b4)"

definition HTMLTagToInlineStyleMap :: "string \<rightharpoonup> string" where
  "HTMLTagToInlineStyleMap =
     map_of [(''b'', ''BOLD''), (''code'', ''CODE''), (''del'', ''STRIKETHROUGH''),
             (''em'', ''ITALIC''), (''i'', ''ITALIC''), (''s'', ''STRIKETHROUGH''),
             (''strike'', ''STRIKETHROUGH''), (''strong'', ''BOLD''), (''u'', ''UNDERLINE'')]"

text \<open>
  \<open>a || b\<close> for a string-or-null \<open>a\<close> and a string \<open>b\<close>: \<open>a\<close> when it is truthy.
\<close>

definition orElse :: "string option \<Rightarrow> string \<Rightarrow> string" where
  "orElse a b = (case a of None \<Rightarrow> b | Some s \<Rightarrow> if s \<noteq> [] then s else b)"

text \<open>
  The choice of one block type for a tag (lines 357 to 359):
  \<open>disambiguate(nodeName, wrapper) || blockType[0] || 'unstyled'\<close> when the entry is a
  list of candidates, the entry itself when it is a string. \<open>blockType[0]\<close> is
  \<open>undefined\<close> for an empty list.
\<close>

definition resolveBlockType ::
    "(string \<Rightarrow> string \<Rightarrow> string option) \<Rightarrow> string \<Rightarrow> string \<Rightarrow> blockTypeEntry \<Rightarrow> string" where
  "resolveBlockType dis nodeNm wrap blockType =
     (case blockType of
        Str s \<Rightarrow> s
      | Arr cands \<Rightarrow>
          orElse (dis nodeNm wrap)
            (orElse (case cands of [] \<Rightarrow> None | c # _ \<Rightarrow> Some c) ''unstyled''))"

text \<open>
  The idiom that precedes every block boundary: trim the pending text and, when some is
  left, make a descriptor of it.
\<close>

definition flushCurrentText :: "modules \<Rightarrow> builder \<Rightarrow> blockConfig list \<times> builder" where
  "flushCurrentText M b =
     (let b1 = trimCurrentText b
      in if currentText b1 \<noteq> []
         then (let (c, b2) = makeBlockConfig M None b1 in ([c], b2))
         else ([], b1))"

text \<open>
  \<open>_toBlockConfigs\<close> is the loop over the nodes, \<open>toBlockConfigsNode\<close> its body for
  one node; both return the descriptors pushed and the new state.
\<close>

function toBlockConfigs :: "modules \<Rightarrow> node list \<Rightarrow> builder \<Rightarrow> blockConfig list \<times> builder"
  and toBlockConfigsNode :: "modules \<Rightarrow> node \<Rightarrow> builder \<Rightarrow> blockConfig list \<times> builder"
  and addAnchorNode :: "modules \<Rightarrow> node \<Rightarrow> builder \<Rightarrow> blockConfig list \<times> builder"
where
  "toBlockConfigs M [] b = ([], b)"
| "toBlockConfigs M (n # nodes) b =
     (let (pushed, b1) = toBlockConfigsNode M n b;
          (more, b2) = toBlockConfigs M nodes b1
      in (pushed @ more, b2))"
| "toBlockConfigsNode M n b =
     (let nodeNm = toLowerCase (nodeName n)
      in if nodeNm = ''body'' \<or> nodeNm = ''ol'' \<or> nodeNm = ''ul'' then
           (let (flushed, b1) = flushCurrentText M b;
                wasWrapper = wrapper b1;
                b2 = (if nodeNm = ''ol'' \<or> nodeNm = ''ul'' then b1\<lparr>wrapper := nodeNm\<rparr> else b1);
                (inner, b3) = toBlockConfigs M (childNodes n) b2
            in (flushed @ inner, b3\<lparr>wrapper := wasWrapper\<rparr>))
         else case blockTypeMap b nodeNm of
           Some blockType0 \<Rightarrow>
             (let (flushed, b1) = flushCurrentText M b;
                  wasCurrentDepth = currentDepth b1;
                  wasWrapper = wrapper b1;
                  b2 = b1\<lparr>wrapper := (if nodeNm = ''pre'' then ''pre'' else wrapper b1)\<rparr>;
                  blockType = resolveBlockType (disambiguate b2) nodeNm (wrapper b2) blockType0;
                  b3 = (if experimentalTreeDataSupport M \<and> isHTMLElement n \<and>
                           (blockType = ''unordered-list-item'' \<or> blockType = ''ordered-list-item'')
                        then b2\<lparr>currentDepth := getListItemDepth0 n\<rparr> else b2);
                  k = generateRandomKey M (keysDrawn b3);
                  b4 = b3\<lparr>keysDrawn := Suc (keysDrawn b3)\<rparr>;
                  (childCfgs, b5) = toBlockConfigs M (childNodes n) b4;
                  b6 = trimCurrentText b5;
                  (cfg, b7) = makeBlockConfig M (Some (k, childCfgs, blockType)) b6
              in (flushed @ [cfg], b7\<lparr>currentDepth := wasCurrentDepth, wrapper := wasWrapper\<rparr>))
         | None \<Rightarrow>
             if nodeNm = ''#text'' then ([], addTextNode n b)
             else if isValidImage n then ([], addImgNode n b)
             else if isValidAnchor n then addAnchorNode M n b
             else (let inlineStyle = HTMLTagToInlineStyleMap nodeNm;
                       b1 = (case inlineStyle of Some st \<Rightarrow> addStyle st b | None \<Rightarrow> b);
                       (inner, b2) = toBlockConfigs M (childNodes n) b1;
                       b3 = (case inlineStyle of Some st \<Rightarrow> removeStyle st b2 | None \<Rightarrow> b2)
                   in (inner, updateStyleFromNodeAttributes n b3)))"
| "addAnchorNode M n b =
     (if iface n \<noteq> HTMLAnchorElement then ([], b)
      else let entityConfig = collectAttributes n anchorAttr @ [(''url'', href n)];
               (k, reg) = entityCreate (entityMap b) ''LINK'' ''MUTABLE'' entityConfig;
               b1 = b\<lparr>entityMap := reg, currentEntity := Some k\<rparr>;
               (inner, b2) = toBlockConfigs M (childNodes n) b1
           in (inner, b2\<lparr>currentEntity := None\<rparr>))"
  by pat_completeness auto
termination
proof -
  have kids: "size_list size (childNodes n) < size n" for n :: node
    by (cases n) simp
  have kids3: "3 * size_list size (childNodes n) \<le> Suc (3 * size n)" for n :: node
    using kids [of n] by simp
  show ?thesis
    by (relation "measure (\<lambda>x. case x of
            Inl (M, ns, b) \<Rightarrow> 3 * size_list size ns
          | Inr (Inl (M, n, b)) \<Rightarrow> 3 * size n + 2
          | Inr (Inr (M, n, b)) \<Rightarrow> 3 * size n + 1)")
       (auto simp: less_Suc_eq_le kids3 less_imp_le [OF kids])
qed

text \<open>
  The equations of the loop body and of \<open>_addAnchorNode\<close> hold for every argument, so
  they are unfolded by hand.
\<close>

declare toBlockConfigsNode.simps [simp del] addAnchorNode.simps [simp del]

definition addDOMNode :: "modules \<Rightarrow> node \<Rightarrow> builder \<Rightarrow> builder" where
  "addDOMNode M n b =
     (let b0 = b\<lparr>contentBlocks := []\<rparr>;
          (cfgs, b1) = toBlockConfigs M [n] b0;
          b2 = b1\<lparr>blockConfigs := blockConfigs b1 @ cfgs\<rparr>;
          (flushed, b3) = flushCurrentText M b2
      in b3\<lparr>blockConfigs := blockConfigs b3 @ flushed\<rparr>)"

section \<open>The materializer\<close>

definition toNode :: "blockConfig \<Rightarrow> contentBlockNode" where
  "toNode c =
     \<lparr>nodeKey = cfgKey c, nodeType = cfgType c, nodeText = cfgText c,
      nodeCharacterList = cfgCharacterList c, nodeDepth = cfgDepth c,
      nodeParent = cfgParent c, nodeChildren = cfgChildren c,
      nodePrevSibling = cfgPrevSibling c, nodeNextSibling = cfgNextSibling c\<rparr>"

text \<open>
  \<open>_toContentBlocks\<close> writes the links into the descriptors and pushes one
  ContentBlockNode for each. \<open>toContentBlocksFrom prev\<close> is the loop from a descriptor
  on, \<open>prev\<close> the key of the descriptor before it (\<open>blockConfigs[i - 1].key\<close>, null at
  \<open>i = 0\<close>); it returns the descriptors as they are after the walk and the nodes pushed.
\<close>

function toContentBlocksFrom ::
    "string option \<Rightarrow> blockConfig list \<Rightarrow> string option \<Rightarrow> blockConfig list \<times> contentBlockNode list" where
  "toContentBlocksFrom prev [] par = ([], [])"
| "toContentBlocksFrom prev (config # rest) par =
     (let config1 = BlockConfig (cfgKey config) (cfgType config) (cfgText config)
                      (cfgCharacterList config) (cfgDepth config)
                      par
                      (map cfgKey (childConfigs config))
                      prev
                      (case rest of [] \<Rightarrow> None | nxt # _ \<Rightarrow> Some (cfgKey nxt))
                      (childConfigs config);
          pushed = toNode config1;
          (kids, below) = toContentBlocksFrom None (childConfigs config) (Some (cfgKey config));
          config2 = BlockConfig (cfgKey config1) (cfgType config1) (cfgText config1)
                      (cfgCharacterList config1) (cfgDepth config1) (cfgParent config1)
                      (cfgChildren config1) (cfgPrevSibling config1) (cfgNextSibling config1) kids;
          (rest', after) = toContentBlocksFrom (Some (cfgKey config)) rest par
      in (config2 # rest', pushed # below @ after))"
  by pat_completeness auto
termination
proof -
  have kids: "size_list size (childConfigs c) < size c" for c :: blockConfig
    by (cases c) simp
  have kids': "size_list size (childConfigs c) \<le> size c + k" for c :: blockConfig and k
    using kids [of c] by simp
  show ?thesis
    by (relation "measure (\<lambda>(prev, cs, par). size_list size cs)")
       (auto simp: less_Suc_eq_le kids')
qed

definition toContentBlocks ::
    "blockConfig list \<Rightarrow> string option \<Rightarrow> blockConfig list \<times> contentBlockNode list" where
  "toContentBlocks cfgs par = toContentBlocksFrom None cfgs par"

text \<open>
  The descriptors have no property named \<open>blockType\<close> (\<open>_makeBlockConfig\<close> names it
  \<open>type\<close>), so reading \<open>config.blockType\<close> gives \<open>undefined\<close>.
\<close>

definition blockType :: "blockConfig \<Rightarrow> string option" where
  "blockType config = None"

text \<open>\<open>last()\<close> of an immutable list: \<open>undefined\<close> when the list is empty.\<close>

definition listLast :: "'a option list \<Rightarrow> 'a option" where
  "listLast xs = (if xs = [] then None else last xs)"

text \<open>
  \<open>_extractTextFromBlockConfigs\<close>: \<open>extractFrom txt cl\<close> is the loop from a descriptor
  on, with the text and the character list accumulated so far.
\<close>

function extractFrom ::
    "jsstring \<Rightarrow> characterMetadata option list \<Rightarrow> blockConfig list \<Rightarrow>
     jsstring \<times> characterMetadata option list" where
  "extractFrom txt cl [] = (txt, cl)"
| "extractFrom txt cl (config # rest) =
     (let txt1 = txt @ cfgText config;
          cl1 = cl @ map Some (cfgCharacterList config);
          sep = (txt1 \<noteq> [] \<and> blockType config \<noteq> Some ''unstyled'');
          txt2 = (if sep then txt1 @ [LF] else txt1);
          cl2 = (if sep then cl1 @ [listLast cl1] else cl1);
          children = extractFrom [] [] (childConfigs config)
      in extractFrom (txt2 @ fst children) (cl2 @ snd children) rest)"
  by pat_completeness auto
termination
proof -
  have kids: "size_list size (childConfigs c) < size c" for c :: blockConfig
    by (cases c) simp
  have kids': "size_list size (childConfigs c) \<le> size c + k" for c :: blockConfig and k
    using kids [of c] by simp
  show ?thesis
    by (relation "measure (\<lambda>(txt, cl, cs). size_list size cs)")
       (auto simp: less_Suc_eq_le kids')
qed

definition extractTextFromBlockConfigs ::
    "blockConfig list \<Rightarrow> jsstring \<times> characterMetadata option list" where
  "extractTextFromBlockConfigs cfgs = extractFrom [] [] cfgs"

definition toFlatContentBlock :: "blockConfig \<Rightarrow> contentBlock" where
  "toFlatContentBlock config =
     (let (txt, cl) = extractTextFromBlockConfigs (childConfigs config)
      in \<lparr>cbKey = cfgKey config, cbType = cfgType config, cbText = cfgText config @ txt,
          cbCharacterList = map Some (cfgCharacterList config) @ cl,
          cbDepth = cfgDepth config\<rparr>)"

definition toFlatContentBlocks :: "blockConfig list \<Rightarrow> contentBlock list" where
  "toFlatContentBlocks cfgs = map toFlatContentBlock cfgs"

text \<open>
  \<open>getContentBlocks\<close> returns the blocks and the entity map; the state it leaves is
  the third component.
\<close>

definition getContentBlocks ::
    "modules \<Rightarrow> builder \<Rightarrow> blockNodeRecord list \<times> draftEntity list \<times> builder" where
  "getContentBlocks M b =
     (let b1 = (if contentBlocks b = []
                then (if experimentalTreeDataSupport M
                      then (let (cfgs, nodes) = toContentBlocks (blockConfigs b) None
                            in b\<lparr>blockConfigs := cfgs,
                                 contentBlocks := contentBlocks b @ map ContentBlockNode nodes\<rparr>)
                      else b\<lparr>contentBlocks :=
                               contentBlocks b @ map ContentBlock (toFlatContentBlocks (blockConfigs b))\<rparr>)
                else b)
      in (contentBlocks b1, entityMap b1, b1))"

section \<open>The entry point\<close>

definition sanitize :: "jsstring \<Rightarrow> jsstring" where
  "sanitize html =
     removeOptSemi 0x26 [0x23, 0x38, 0x32, 0x30, 0x33]
       (removeOptSemi 0x26 [0x23, 0x31, 0x33]
          (replaceAll 0x26 [0x6E, 0x62, 0x73, 0x70, 0x3B] SPACE
             (replaceAll CR [] [] (trim html))))"

definition defaultDisambiguate :: "string \<Rightarrow> string \<Rightarrow> string option" where
  "defaultDisambiguate tag wrap =
     (if tag = ''li''
      then Some (if wrap = ''ol'' then ''ordered-list-item'' else ''unordered-list-item'')
      else None)"

text \<open>
  \<open>DOMBuilder\<close> returns a node, or \<open>None\<close> for a falsy result. The conversion
  returns \<open>Inr None\<close> for null, \<open>Inr (Some (blocks, entities))\<close> for the pair, and
  \<open>Inl\<close> when it throws. The test of the body comes before the block type map is built.
\<close>

definition convertFromHTMLtoContentBlocks ::
    "modules \<Rightarrow> jsstring \<Rightarrow> (jsstring \<Rightarrow> node option) \<Rightarrow> (string \<times> renderDesc) list \<Rightarrow>
     error + (blockNodeRecord list \<times> draftEntity list) option" where
  "convertFromHTMLtoContentBlocks M html DOMBuilder blockRenderMap =
     (case DOMBuilder (sanitize html) of
        None \<Rightarrow> Inr None
      | Some safeBody \<Rightarrow>
          (case buildBlockTypeMap blockRenderMap of
             Inl e \<Rightarrow> Inl e
           | Inr typeMap \<Rightarrow>
               (let (blocks, entities, b) =
                      getContentBlocks M
                        (addDOMNode M safeBody (newBuilder M typeMap defaultDisambiguate))
                in Inr (Some (blocks, entities)))))"

section \<open>Example trees\<close>

definition textNode :: "jsstring \<Rightarrow> node" where
  "textNode s = Node ''#text'' PlainNode s [] [] [] [] [] [] [] []"

definition elementNode :: "string \<Rightarrow> node list \<Rightarrow> node" where
  "elementNode tag kids = Node tag HTMLElement [] [] [] [] [] [] [] [] kids"

definition imgNode :: "(string \<times> string) list \<Rightarrow> node" where
  "imgNode attrs = Node ''IMG'' HTMLImageElement [] attrs [] [] [] [] [] [] []"

definition exampleModules :: "bool \<Rightarrow> modules" where
  "exampleModules tree =
     \<lparr>experimentalTreeDataSupport = tree,
      generateRandomKey = (\<lambda>n. replicate (Suc n) CHR ''k''),
      DraftEntity = []\<rparr>"

text \<open>
  An ASCII text as a sequence of code units, and the trees of the scenarios: an image, a
  paragraph of whitespace, a paragraph in a list item, a bold tag in a bold tag.
\<close>

definition fromAscii :: "string \<Rightarrow> jsstring" where
  "fromAscii s = map (\<lambda>c. of_nat (of_char c)) s"

definition imgTree :: node where
  "imgTree = elementNode ''BODY'' [imgNode [(''src'', ''a.png'')]]"

definition blankParagraph :: "jsstring \<Rightarrow> node" where
  "blankParagraph ws = elementNode ''BODY'' [elementNode ''P'' [textNode ws]]"

definition listItemParagraph :: node where
  "listItemParagraph = elementNode ''BODY'' [elementNode ''LI'' [elementNode ''P'' [textNode [0x61]]]]"









definition exampleForest :: "blockConfig list" where
  "exampleForest =
     [BlockConfig ''a'' ''unordered-list-item'' [] [] 0 None [] None None
        [BlockConfig ''b'' ''unstyled'' [0x78] [\<lparr>style = [], entity = None\<rparr>] 0 None [] None None [],
         BlockConfig ''c'' ''unstyled'' [0x79] [\<lparr>style = [], entity = None\<rparr>] 0 None [] None None []],
      BlockConfig ''d'' ''unstyled'' [0x7A] [\<lparr>style = [], entity = None\<rparr>] 0 None [] None None []]"

definition trimExample :: builder where
  "trimExample =
     (newBuilder (exampleModules False) Map.empty defaultDisambiguate)
       \<lparr>currentText := [0x20, 0x20, 0x41, 0x20, 0x20],
        characterList := [\<lparr>style = [], entity = None\<rparr>, \<lparr>style = [], entity = Some 0\<rparr>,
                          \<lparr>style = [], entity = None\<rparr>, \<lparr>style = [], entity = Some 0\<rparr>, \<lparr>style = [], entity = None\<rparr>]\<rparr>"


section \<open>The trimming rule in the words of the specification\<close>

text \<open>
  A character can be trimmed when it is whitespace and carries no entity. Trimming
  removes the longest run of such characters from the front, up to \<open>specBegin\<close>, and
  the longest run from the back, down to \<open>specEnd\<close>.
\<close>

definition trimmable :: "16 word \<times> characterMetadata \<Rightarrow> bool" where
  "trimmable p \<longleftrightarrow> isWhiteSpace (fst p) \<and> entity (snd p) = None"

definition specBegin :: "jsstring \<Rightarrow> characterMetadata list \<Rightarrow> nat" where
  "specBegin tx cl = length (takeWhile trimmable (zip tx cl))"

definition specEnd :: "jsstring \<Rightarrow> characterMetadata list \<Rightarrow> nat" where
  "specEnd tx cl = length tx - length (takeWhile trimmable (rev (zip tx cl)))"

section \<open>Well-formed descriptors and states\<close>

text \<open>
  A descriptor is well formed when its character list has one entry for each code unit
  of its text, and so for every descriptor below it; a state is well formed when the same
  holds of the pending text and of the descriptors collected so far.
\<close>

fun cfgOk :: "blockConfig \<Rightarrow> bool" where
  "cfgOk (BlockConfig k t tx cl d p ch pv nx kids) \<longleftrightarrow>
     length cl = length tx \<and> (\<forall>c\<in>set kids. cfgOk c)"

definition builderOk :: "builder \<Rightarrow> bool" where
  "builderOk b \<longleftrightarrow>
     length (characterList b) = length (currentText b) \<and> (\<forall>c\<in>set (blockConfigs b). cfgOk c)"

section \<open>Style scoping\<close>

text \<open>
  What the presentational attributes of a node do to a style on exit, and the nodes that
  never remove a style, neither by a tag of that style nor by an attribute, in the whole
  subtree.
\<close>

definition attrRemoves :: "string \<Rightarrow> node \<Rightarrow> bool" where
  "attrRemoves s n \<longleftrightarrow>
     (s = ''BOLD'' \<and> fontWeight n \<in> set notBoldValues) \<or>
     (s = ''ITALIC'' \<and> fontStyle n = ''normal'') \<or>
     ((s = ''UNDERLINE'' \<or> s = ''STRIKETHROUGH'') \<and> textDecoration n = ''none'')"


fun noRemover :: "string \<Rightarrow> node \<Rightarrow> bool" where
  "noRemover s (Node nm ifc tc attrs cls hr pr fw fs td kids) \<longleftrightarrow>
     HTMLTagToInlineStyleMap (toLowerCase nm) \<noteq> Some s \<and>
     \<not> attrRemoves s (Node nm ifc tc attrs cls hr pr fw fs td kids) \<and>
     (\<forall>k\<in>set kids. noRemover s k)"

text \<open>
  The characters of a state and of a list of descriptors, each with its metadata, in the
  order of the text: \<open>pendingChars\<close> are the characters of the pending text,
  \<open>cfgChars\<close> those of a descriptor followed by those of the descriptors below it,
  \<open>emitted cfgs b\<close> those of the descriptors pushed followed by the pending ones.
\<close>

definition pendingChars :: "builder \<Rightarrow> (16 word \<times> characterMetadata) list" where
  "pendingChars b = zip (currentText b) (characterList b)"

fun cfgChars :: "blockConfig \<Rightarrow> (16 word \<times> characterMetadata) list" where
  "cfgChars (BlockConfig k t tx cl d p ch pv nx kids) = zip tx cl @ concat (map cfgChars kids)"

definition emitted :: "blockConfig list \<Rightarrow> builder \<Rightarrow> (16 word \<times> characterMetadata) list" where
  "emitted cfgs b = concat (map cfgChars cfgs) @ pendingChars b"

text \<open>
  \<open>mixed s z xs\<close>: the characters \<open>xs\<close> are a segment of the characters \<open>z\<close>, in
  place and unchanged, followed by characters that all carry the style \<open>s\<close>.
  \<open>scoped s b cfgs b'\<close> relates the state before a step to the descriptors pushed and
  the state after it: the style is still active, the characters are those pending before
  (less what was trimmed) followed by styled ones, and once a descriptor has been pushed
  every pending character is a styled one.
\<close>

definition allStyled :: "string \<Rightarrow> (16 word \<times> characterMetadata) list \<Rightarrow> bool" where
  "allStyled s xs \<longleftrightarrow> (\<forall>p\<in>set xs. hasStyle s (snd p))"

definition mixed ::
    "string \<Rightarrow> (16 word \<times> characterMetadata) list \<Rightarrow> (16 word \<times> characterMetadata) list \<Rightarrow> bool" where
  "mixed s z xs \<longleftrightarrow> (\<exists>i j a. xs = take j (drop i z) @ a \<and> allStyled s a)"

definition active :: "string \<Rightarrow> builder \<Rightarrow> bool" where
  "active s b \<longleftrightarrow> s \<in> set (currentStyle b) \<and> length (characterList b) = length (currentText b)"

definition scoped :: "string \<Rightarrow> builder \<Rightarrow> blockConfig list \<Rightarrow> builder \<Rightarrow> bool" where
  "scoped s b cfgs b' \<longleftrightarrow>
     active s b' \<and> mixed s (pendingChars b) (emitted cfgs b') \<and>
     (cfgs \<noteq> [] \<longrightarrow> allStyled s (pendingChars b'))"

section \<open>Element names that throw\<close>


section \<open>Hierarchical mode in the words of the specification\<close>

text \<open>
  \<open>linkForest par cs\<close> is the forest \<open>cs\<close> with the links written in: the
  descriptor at index \<open>i\<close> gets the parent \<open>par\<close>, the keys of its neighbours at
  \<open>i - 1\<close> and \<open>i + 1\<close> (null at the ends), the keys of its own child descriptors,
  and its children linked in the same way with its own key as their parent.
  \<open>linkAt\<close> is the descriptor at one index. \<open>preorderConfigs\<close> lists a forest depth
  first, every descriptor before the descriptors below it.
\<close>

function linkForest :: "string option \<Rightarrow> blockConfig list \<Rightarrow> blockConfig list" where
  "linkForest par cs =
     map (\<lambda>i. BlockConfig (cfgKey (cs ! i)) (cfgType (cs ! i)) (cfgText (cs ! i))
                 (cfgCharacterList (cs ! i)) (cfgDepth (cs ! i))
                 par
                 (map cfgKey (childConfigs (cs ! i)))
                 (if 0 < i then Some (cfgKey (cs ! (i - 1))) else None)
                 (if i + 1 < length cs then Some (cfgKey (cs ! (i + 1))) else None)
                 (linkForest (Some (cfgKey (cs ! i))) (childConfigs (cs ! i))))
       [0..<length cs]"
  by pat_completeness auto
termination
proof -
  have kids: "size_list size (childConfigs c) < size c" for c :: blockConfig
    by (cases c) simp
  have "size_list size (childConfigs (cs ! i)) < size_list size cs"
    if "i < length cs" for cs :: "blockConfig list" and i
  proof -
    have "size (cs ! i) \<le> size_list size cs"
      using that by (intro size_list_estimation' [where x = "cs ! i"]) simp_all
    then show ?thesis using kids [of "cs ! i"] by simp
  qed
  then show ?thesis
    by (relation "measure (\<lambda>(par, cs). size_list size cs)") auto
qed

declare linkForest.simps [simp del]

function preorderConfigs :: "blockConfig list \<Rightarrow> blockConfig list" where
  "preorderConfigs [] = []"
| "preorderConfigs (c # cs) = c # preorderConfigs (childConfigs c) @ preorderConfigs cs"
  by pat_completeness auto
termination
proof -
  have kids: "size_list size (childConfigs c) \<le> size c + k" for c :: blockConfig and k
    by (cases c) simp
  show ?thesis
    by (relation "measure (size_list size)") (auto simp: less_Suc_eq_le kids)
qed

definition linkAt :: "string option \<Rightarrow> blockConfig list \<Rightarrow> nat \<Rightarrow> blockConfig" where
  "linkAt par cs i =
     BlockConfig (cfgKey (cs ! i)) (cfgType (cs ! i)) (cfgText (cs ! i))
       (cfgCharacterList (cs ! i)) (cfgDepth (cs ! i))
       par
       (map cfgKey (childConfigs (cs ! i)))
       (if 0 < i then Some (cfgKey (cs ! (i - 1))) else None)
       (if i + 1 < length cs then Some (cfgKey (cs ! (i + 1))) else None)
       (linkForest (Some (cfgKey (cs ! i))) (childConfigs (cs ! i)))"

text \<open>
  \<open>parentsFirst par seen ns\<close>: every node of \<open>ns\<close> has the parent \<open>par\<close> or a
  parent whose key is in \<open>seen\<close> or belongs to a node earlier in \<open>ns\<close>.
\<close>

fun parentsFirst :: "string option \<Rightarrow> string list \<Rightarrow> contentBlockNode list \<Rightarrow> bool" where
  "parentsFirst par seen [] = True"
| "parentsFirst par seen (n # ns) =
     ((nodeParent n = par \<or> (\<exists>k\<in>set seen. nodeParent n = Some k)) \<and>
      parentsFirst par (nodeKey n # seen) ns)"

section \<open>Properties\<close>

subsection \<open>List item depth\<close>

lemma knownListItemDepthClasses_eq:
  "knownListItemDepthClasses =
     [(''public-DraftStyleDefault-depth0'', 0), (''public-DraftStyleDefault-depth1'', 1),
      (''public-DraftStyleDefault-depth2'', 2), (''public-DraftStyleDefault-depth3'', 3),
      (''public-DraftStyleDefault-depth4'', 4)]"
  by (simp add: knownListItemDepthClasses_def cx_def)

text \<open>
  C10: the known depth classes are depth0 to depth4, tested in that order, and the last
  one the node carries gives the depth: the highest-numbered class of the node wins, and
  a node with none of them keeps the default, which is 0 in the call of the program.
\<close>

theorem getListItemDepth_last_match:
  "map fst knownListItemDepthClasses =
     [''public-DraftStyleDefault-depth0'', ''public-DraftStyleDefault-depth1'',
      ''public-DraftStyleDefault-depth2'', ''public-DraftStyleDefault-depth3'',
      ''public-DraftStyleDefault-depth4''] \<and>
   getListItemDepth n d =
     (if ''public-DraftStyleDefault-depth4'' \<in> set (classList n) then 4
      else if ''public-DraftStyleDefault-depth3'' \<in> set (classList n) then 3
      else if ''public-DraftStyleDefault-depth2'' \<in> set (classList n) then 2
      else if ''public-DraftStyleDefault-depth1'' \<in> set (classList n) then 1
      else if ''public-DraftStyleDefault-depth0'' \<in> set (classList n) then 0
      else d) \<and>
   getListItemDepth0 n = getListItemDepth n 0"
  by (simp add: knownListItemDepthClasses_eq getListItemDepth_def getListItemDepth0_def)

theorem getListItemDepth_last_match_witness:
  "getListItemDepth0 (Node ''LI'' HTMLElement [] []
      [''public-DraftStyleDefault-depth3'', ''public-DraftStyleDefault-depth1''] [] [] [] [] [] []) = 3 \<and>
   getListItemDepth0 (Node ''LI'' HTMLElement [] [] [''other''] [] [] [] [] [] []) = 0"
  using getListItemDepth_last_match [of "Node ''LI'' HTMLElement [] []
      [''public-DraftStyleDefault-depth3'', ''public-DraftStyleDefault-depth1''] [] [] [] [] [] []" 0]
    getListItemDepth_last_match [of "Node ''LI'' HTMLElement [] [] [''other''] [] [] [] [] [] []" 0]
  by simp

subsection \<open>The choice of a block type\<close>

text \<open>
  C9, as stated, fails where an alternative is the empty string, which is falsy: with the
  empty string as the first candidate the result is "unstyled" and not the first listed
  candidate, and an empty answer of the disambiguation function is passed over for the
  first candidate.
\<close>

theorem resolveBlockType_empty_candidate:
  "resolveBlockType (\<lambda>tag wrap. None) ''div'' ''ul'' (Arr ([] # [''atomic''])) = ''unstyled'' \<and>
   resolveBlockType (\<lambda>tag wrap. Some []) ''div'' ''ul'' (Arr [''atomic'']) = ''atomic''"
  by (simp add: resolveBlockType_def orElse_def)

text \<open>
  C9, amended: for a tag mapped to a list of candidates the result is the answer of the
  disambiguation function when that answer is a non-empty string, otherwise the first
  listed candidate when there is one and it is non-empty, otherwise "unstyled"; the
  result is a non-empty block type for every tag and wrapper.
\<close>

theorem resolveBlockType_ambiguous:
  "(truthy (dis tag wrap) \<longrightarrow> dis tag wrap = Some (resolveBlockType dis tag wrap (Arr cands))) \<and>
   (\<not> truthy (dis tag wrap) \<and> cands \<noteq> [] \<and> hd cands \<noteq> [] \<longrightarrow>
      resolveBlockType dis tag wrap (Arr cands) = hd cands) \<and>
   (\<not> truthy (dis tag wrap) \<and> (cands = [] \<or> hd cands = []) \<longrightarrow>
      resolveBlockType dis tag wrap (Arr cands) = ''unstyled'') \<and>
   resolveBlockType dis tag wrap (Arr cands) \<noteq> []"
  by (cases cands; cases "dis tag wrap") (auto simp: resolveBlockType_def truthy_def orElse_def)

theorem resolveBlockType_ambiguous_witness:
  "resolveBlockType defaultDisambiguate ''li'' ''ol''
      (Arr [''ordered-list-item'', ''unordered-list-item'']) = ''ordered-list-item'' \<and>
   resolveBlockType defaultDisambiguate ''pre'' ''ul'' (Arr [''code-block'', ''other'']) = ''code-block'' \<and>
   resolveBlockType defaultDisambiguate ''pre'' ''ul'' (Arr []) = ''unstyled''"
  using resolveBlockType_ambiguous [of defaultDisambiguate "''li''" "''ol''"
      "[''ordered-list-item'', ''unordered-list-item'']"]
    resolveBlockType_ambiguous [of defaultDisambiguate "''pre''" "''ul''" "[''code-block'', ''other'']"]
    resolveBlockType_ambiguous [of defaultDisambiguate "''pre''" "''ul''" "[]"]
  by (simp add: defaultDisambiguate_def truthy_def)

subsection \<open>Trimming\<close>

lemma trimLeft_count: "length s - length (trimLeft s) = length (takeWhile isWhiteSpace s)"
proof -
  have "length (takeWhile isWhiteSpace s) + length (dropWhile isWhiteSpace s) = length s"
    by (metis length_append takeWhile_dropWhile_id)
  then show ?thesis by (simp add: trimLeft_def)
qed

lemma trimRight_count: "length (trimRight s) = length s - length (takeWhile isWhiteSpace (rev s))"
proof -
  have "length (takeWhile isWhiteSpace (rev s)) + length (dropWhile isWhiteSpace (rev s)) = length (rev s)"
    by (metis length_append takeWhile_dropWhile_id)
  then show ?thesis by (simp add: trimRight_def)
qed

lemma findEntry_None: "findEntry p xs = None \<longleftrightarrow> (\<forall>x\<in>set xs. \<not> p x)"
  by (induction xs) (auto split: option.splits)

lemma findEntry_Some:
  "findEntry p xs = Some (i, v) \<Longrightarrow>
     i = length (takeWhile (\<lambda>x. \<not> p x) xs) \<and> i < length xs \<and> xs ! i = v \<and> p v"
  by (induction xs arbitrary: i v) (auto split: option.splits if_splits)

lemma takeWhile_zip_min:
  "length xs = length ys \<Longrightarrow>
     length (takeWhile (\<lambda>z. P (fst z) \<and> Q (snd z)) (zip xs ys)) =
       min (length (takeWhile P xs)) (length (takeWhile Q ys))"
  by (induction xs ys rule: list_induct2) auto

lemma specBegin_code:
  assumes "length cl = length tx"
  shows "specBegin tx cl =
     (case findEntry (\<lambda>m. getEntity m \<noteq> None) cl of
        Some ent \<Rightarrow> min (length tx - length (trimLeft tx)) (fst ent)
      | None \<Rightarrow> length tx - length (trimLeft tx))"
proof -
  have m: "specBegin tx cl =
      min (length (takeWhile isWhiteSpace tx)) (length (takeWhile (\<lambda>m. entity m = None) cl))"
    unfolding specBegin_def trimmable_def
    using assms takeWhile_zip_min [of tx cl isWhiteSpace "\<lambda>m. entity m = None"] by simp
  show ?thesis
  proof (cases "findEntry (\<lambda>m. getEntity m \<noteq> None) cl")
    case None
    then have "takeWhile (\<lambda>m. entity m = None) cl = cl"
      by (simp add: findEntry_None getEntity_def)
    then have "length (takeWhile (\<lambda>m. entity m = None) cl) = length tx"
      using assms by (metis)
    moreover have "length (takeWhile isWhiteSpace tx) \<le> length tx"
      by (rule length_takeWhile_le)
    ultimately show ?thesis using None m
      by (simp add: trimLeft_count)
  next
    case (Some ent)
    obtain i v where ent: "ent = (i, v)" by (cases ent)
    from findEntry_Some [OF Some [unfolded ent]]
    have "i = length (takeWhile (\<lambda>m. entity m = None) cl)" by (simp add: getEntity_def)
    then show ?thesis using Some m ent by (simp add: trimLeft_count)
  qed
qed

lemma specEnd_code:
  assumes "length cl = length tx"
  shows "specEnd tx cl =
     (case findEntry (\<lambda>m. getEntity m \<noteq> None) (rev cl) of
        Some ent \<Rightarrow> max (length (trimRight tx)) (length tx - fst ent)
      | None \<Rightarrow> length (trimRight tx))"
proof -
  have "rev (zip tx cl) = zip (rev tx) (rev cl)"
    using assms by (simp add: zip_rev)
  then have m: "specEnd tx cl = length tx -
      min (length (takeWhile isWhiteSpace (rev tx))) (length (takeWhile (\<lambda>m. entity m = None) (rev cl)))"
    unfolding specEnd_def trimmable_def
    using assms takeWhile_zip_min [of "rev tx" "rev cl" isWhiteSpace "\<lambda>m. entity m = None"] by simp
  show ?thesis
  proof (cases "findEntry (\<lambda>m. getEntity m \<noteq> None) (rev cl)")
    case None
    then have "takeWhile (\<lambda>m. entity m = None) (rev cl) = rev cl"
      by (simp add: findEntry_None getEntity_def)
    then have "length (takeWhile (\<lambda>m. entity m = None) (rev cl)) = length tx"
      using assms by (metis length_rev)
    moreover have "length (takeWhile isWhiteSpace (rev tx)) \<le> length tx"
      by (metis length_rev length_takeWhile_le)
    ultimately show ?thesis using None m
      by (simp add: trimRight_count)
  next
    case (Some ent)
    obtain i v where ent: "ent = (i, v)" by (cases ent)
    from findEntry_Some [OF Some [unfolded ent]]
    have "i = length (takeWhile (\<lambda>m. entity m = None) (rev cl))" by (simp add: getEntity_def)
    then show ?thesis using Some m ent by (simp add: trimRight_count) 
  qed
qed

lemma trimCurrentText_spec:
  assumes "length (characterList b) = length (currentText b)"
  shows "trimCurrentText b =
     (if specBegin (currentText b) (characterList b) > specEnd (currentText b) (characterList b)
      then b\<lparr>currentText := [], characterList := []\<rparr>
      else b\<lparr>currentText := sliceList (specBegin (currentText b) (characterList b))
                               (specEnd (currentText b) (characterList b)) (currentText b),
             characterList := sliceList (specBegin (currentText b) (characterList b))
                               (specEnd (currentText b) (characterList b)) (characterList b)\<rparr>)"
  unfolding specBegin_code [OF assms] specEnd_code [OF assms] trimCurrentText_def Let_def
  by simp

lemma filter_empty_if: "(\<And>x. x \<in> set xs \<Longrightarrow> \<not> P x) \<Longrightarrow> filter P xs = []"
  by (induction xs) auto

lemma slice_keeps:
  assumes pre: "\<And>m. m \<in> set (take b xs) \<Longrightarrow> \<not> P m"
    and post: "\<And>m. m \<in> set (drop e xs) \<Longrightarrow> \<not> P m"
  shows "filter P (if b > e then [] else sliceList b e xs) = filter P xs"
proof (cases "b > e")
  case True
  have "set (drop b xs) \<subseteq> set (drop e xs)"
    using True by (intro set_drop_subset_set_drop) simp
  then have "filter P (drop b xs) = []"
    using post by (intro filter_empty_if) blast
  moreover have "filter P (take b xs) = []"
    using pre by (intro filter_empty_if) blast
  moreover have "filter P xs = filter P (take b xs) @ filter P (drop b xs)"
    by (metis append_take_drop_id filter_append)
  ultimately show ?thesis using True by simp
next
  case False
  then have "take e xs = take b xs @ take (e - b) (drop b xs)"
    using take_add [of b "e - b" xs] by simp
  then have "xs = take b xs @ sliceList b e xs @ drop e xs"
    by (metis append_take_drop_id append_assoc sliceList_def)
  then have "filter P xs = filter P (take b xs) @ filter P (sliceList b e xs) @ filter P (drop e xs)"
    by (metis filter_append)
  moreover have "filter P (take b xs) = []"
    using pre by (intro filter_empty_if) blast
  moreover have "filter P (drop e xs) = []"
    using post by (intro filter_empty_if) blast
  ultimately show ?thesis using False by simp
qed

lemma specBegin_no_entity:
  assumes "length cl = length tx" and "m \<in> set (take (specBegin tx cl) cl)"
  shows "entity m = None"
proof -
  let ?c = "length (takeWhile (\<lambda>m. entity m = None) cl)"
  have "specBegin tx cl \<le> ?c"
    unfolding specBegin_def trimmable_def
    using assms(1) takeWhile_zip_min [of tx cl isWhiteSpace "\<lambda>m. entity m = None"] by simp
  then have "set (take (specBegin tx cl) cl) \<subseteq> set (take ?c cl)"
    by (rule set_take_subset_set_take)
  moreover have "take ?c cl = takeWhile (\<lambda>m. entity m = None) cl"
    by (rule takeWhile_eq_take [symmetric])
  ultimately have "m \<in> set (takeWhile (\<lambda>m. entity m = None) cl)"
    using assms(2) by auto
  then show ?thesis by (auto dest: set_takeWhileD)
qed

lemma specEnd_no_entity:
  assumes "length cl = length tx" and "m \<in> set (drop (specEnd tx cl) cl)"
  shows "entity m = None"
proof -
  let ?c = "length (takeWhile (\<lambda>m. entity m = None) (rev cl))"
  have "rev (zip tx cl) = zip (rev tx) (rev cl)"
    using assms(1) by (simp add: zip_rev)
  then have "specEnd tx cl = length tx - min (length (takeWhile isWhiteSpace (rev tx))) ?c"
    unfolding specEnd_def trimmable_def
    using assms(1) takeWhile_zip_min [of "rev tx" "rev cl" isWhiteSpace "\<lambda>m. entity m = None"] by simp
  then have "length cl - ?c \<le> specEnd tx cl"
    using assms(1) by simp
  then have "set (drop (specEnd tx cl) cl) \<subseteq> set (drop (length cl - ?c) cl)"
    by (rule set_drop_subset_set_drop)
  moreover have "drop (length cl - ?c) cl = rev (take ?c (rev cl))"
    by (simp add: rev_take)
  moreover have "take ?c (rev cl) = takeWhile (\<lambda>m. entity m = None) (rev cl)"
    by (rule takeWhile_eq_take [symmetric])
  ultimately have "m \<in> set (takeWhile (\<lambda>m. entity m = None) (rev cl))"
    using assms(2) by auto
  then show ?thesis by (auto dest: set_takeWhileD)
qed

text \<open>
  C2: on a state whose character list has one entry for each character of the pending
  text, trimming keeps exactly the characters from \<open>specBegin\<close> to \<open>specEnd\<close>: leading
  whitespace goes up to, and not past, the first character with an entity, trailing
  whitespace back to, and not past, the last one, so every character with an entity
  stays; when the begin index exceeds the end index the text and the character list are
  both emptied. The text and the character list keep equal lengths.
\<close>

theorem trimCurrentText_entities:
  assumes "length (characterList b) = length (currentText b)"
  shows "trimCurrentText b =
     (if specBegin (currentText b) (characterList b) > specEnd (currentText b) (characterList b)
      then b\<lparr>currentText := [], characterList := []\<rparr>
      else b\<lparr>currentText := sliceList (specBegin (currentText b) (characterList b))
                               (specEnd (currentText b) (characterList b)) (currentText b),
             characterList := sliceList (specBegin (currentText b) (characterList b))
                               (specEnd (currentText b) (characterList b)) (characterList b)\<rparr>) \<and>
    filter (\<lambda>m. entity m \<noteq> None) (characterList (trimCurrentText b)) =
      filter (\<lambda>m. entity m \<noteq> None) (characterList b) \<and>
    length (characterList (trimCurrentText b)) = length (currentText (trimCurrentText b))"
proof -
  let ?b = "specBegin (currentText b) (characterList b)"
  let ?e = "specEnd (currentText b) (characterList b)"
  have keep: "filter (\<lambda>m. entity m \<noteq> None) (if ?b > ?e then [] else sliceList ?b ?e (characterList b)) =
      filter (\<lambda>m. entity m \<noteq> None) (characterList b)"
    using specBegin_no_entity [OF assms] specEnd_no_entity [OF assms]
    by (intro slice_keeps) auto
  have len: "length (sliceList ?b ?e (characterList b)) = length (sliceList ?b ?e (currentText b))"
    using assms by (simp add: sliceList_def)
  show ?thesis
  proof (cases "?b > ?e")
    case True
    then show ?thesis using keep by (simp add: trimCurrentText_spec [OF assms])
  next
    case False
    then show ?thesis using keep len by (simp add: trimCurrentText_spec [OF assms])
  qed
qed

lemma isWhiteSpace_simps: "isWhiteSpace 0x20" "\<not> isWhiteSpace 0x41"
  by (simp_all add: isWhiteSpace_def)

theorem trimCurrentText_entities_witness:
  "length (characterList trimExample) = length (currentText trimExample) \<and>
   currentText (trimCurrentText trimExample) = [0x20, 0x41, 0x20] \<and>
   map entity (characterList (trimCurrentText trimExample)) = [Some 0, None, Some 0]"
  using trimCurrentText_entities [of trimExample]
  by (simp add: trimExample_def newBuilder_def clear_def specBegin_def specEnd_def trimmable_def
      sliceList_def isWhiteSpace_simps)

subsection \<open>Invariants of the walk\<close>

text \<open>
  A property of the state and a property of the descriptors that every step of the walk
  keeps are kept by the walk of any list of nodes. \<open>N\<close> restricts the nodes walked and
  is closed under children.
\<close>

lemma walk_invariant:
  fixes I :: "builder \<Rightarrow> bool" and C :: "blockConfig \<Rightarrow> bool" and N :: "node \<Rightarrow> bool"
  assumes flush: "\<And>b. I b \<Longrightarrow> I (snd (flushCurrentText M b)) \<and> (\<forall>c\<in>set (fst (flushCurrentText M b)). C c)"
    and wrap: "\<And>b w. I b \<Longrightarrow> I (b\<lparr>wrapper := w\<rparr>)"
    and depth: "\<And>b d. I b \<Longrightarrow> I (b\<lparr>currentDepth := d\<rparr>)"
    and keys: "\<And>b k. I b \<Longrightarrow> I (b\<lparr>keysDrawn := k\<rparr>)"
    and ent: "\<And>b r e. I b \<Longrightarrow> I (b\<lparr>entityMap := r, currentEntity := e\<rparr>)"
    and ent0: "\<And>b. I b \<Longrightarrow> I (b\<lparr>currentEntity := None\<rparr>)"
    and tnode: "\<And>n b. N n \<Longrightarrow> I b \<Longrightarrow> I (addTextNode n b)"
    and img: "\<And>n b. N n \<Longrightarrow> I b \<Longrightarrow> I (addImgNode n b)"
    and add: "\<And>b st. I b \<Longrightarrow> I (addStyle st b)"
    and remove: "\<And>n b st. N n \<Longrightarrow> HTMLTagToInlineStyleMap (toLowerCase (nodeName n)) = Some st \<Longrightarrow>
                   I b \<Longrightarrow> I (removeStyle st b)"
    and upd: "\<And>n b. N n \<Longrightarrow> I b \<Longrightarrow> I (updateStyleFromNodeAttributes n b)"
    and make: "\<And>b k kids t. I b \<Longrightarrow> \<forall>c\<in>set kids. C c \<Longrightarrow>
                 I (snd (makeBlockConfig M (Some (k, kids, t)) (trimCurrentText b))) \<and>
                 C (fst (makeBlockConfig M (Some (k, kids, t)) (trimCurrentText b)))"
    and kidsN: "\<And>n k. N n \<Longrightarrow> k \<in> set (childNodes n) \<Longrightarrow> N k"
  shows "(\<forall>n\<in>set ns. N n) \<Longrightarrow> I b \<Longrightarrow>
           I (snd (toBlockConfigs M ns b)) \<and> (\<forall>c\<in>set (fst (toBlockConfigs M ns b)). C c)"
    and "N n \<Longrightarrow> I b \<Longrightarrow>
           I (snd (toBlockConfigsNode M n b)) \<and> (\<forall>c\<in>set (fst (toBlockConfigsNode M n b)). C c)"
    and "N n \<Longrightarrow> I b \<Longrightarrow>
           I (snd (addAnchorNode M n b)) \<and> (\<forall>c\<in>set (fst (addAnchorNode M n b)). C c)"
proof -
  define Pa where "Pa n \<longleftrightarrow> (\<forall>b. N n \<longrightarrow> I b \<longrightarrow>
      I (snd (addAnchorNode M n b)) \<and> (\<forall>c\<in>set (fst (addAnchorNode M n b)). C c))" for n
  define Pn where "Pn n \<longleftrightarrow> (\<forall>b. N n \<longrightarrow> I b \<longrightarrow>
      I (snd (toBlockConfigsNode M n b)) \<and> (\<forall>c\<in>set (fst (toBlockConfigsNode M n b)). C c))" for n
  have list: "I (snd (toBlockConfigs M ns b)) \<and> (\<forall>c\<in>set (fst (toBlockConfigs M ns b)). C c)"
    if "\<forall>n\<in>set ns. Pn n" "\<forall>n\<in>set ns. N n" "I b" for ns b
    using that
  proof (induction ns arbitrary: b)
    case Nil
    then show ?case by simp
  next
    case (Cons n ns)
    have n: "I (snd (toBlockConfigsNode M n b)) \<and> (\<forall>c\<in>set (fst (toBlockConfigsNode M n b)). C c)"
      using Cons.prems by (simp add: Pn_def)
    have "I (snd (toBlockConfigs M ns (snd (toBlockConfigsNode M n b)))) \<and>
          (\<forall>c\<in>set (fst (toBlockConfigs M ns (snd (toBlockConfigsNode M n b)))). C c)"
      using Cons.prems n by (intro Cons.IH) simp_all
    then show ?case using n by (auto simp: split_beta)
  qed
  have node: "Pn n \<and> Pa n" for n
  proof (induction n)
    case (Node nm ifc tc attrs cls hr pr fw fs td kids)
    let ?n = "Node nm ifc tc attrs cls hr pr fw fs td kids"
    have kidsP: "\<forall>k\<in>set kids. Pn k" using Node.IH by simp
    have K: "I (snd (toBlockConfigs M kids b')) \<and> (\<forall>c\<in>set (fst (toBlockConfigs M kids b')). C c)"
      if "N ?n" "I b'" for b'
    proof -
      have "\<forall>k\<in>set kids. N k" using kidsN [OF that(1)] by simp
      then show ?thesis using list [OF kidsP _ that(2)] by simp
    qed
    have anchor: "Pa ?n"
      unfolding Pa_def
    proof (intro allI impI)
      fix b assume Nn: "N ?n" and Ib: "I b"
      let ?reg = "snd (entityCreate (entityMap b) ''LINK'' ''MUTABLE''
                        (collectAttributes ?n anchorAttr @ [(''url'', href ?n)]))"
      let ?k = "fst (entityCreate (entityMap b) ''LINK'' ''MUTABLE''
                        (collectAttributes ?n anchorAttr @ [(''url'', href ?n)]))"
      have "I (b\<lparr>entityMap := ?reg, currentEntity := Some ?k\<rparr>)"
        using ent [OF Ib] .
      note K1 = K [OF Nn this]
      show "I (snd (addAnchorNode M ?n b)) \<and> (\<forall>c\<in>set (fst (addAnchorNode M ?n b)). C c)"
        using Ib K1 ent0 [OF K1 [THEN conjunct1]]
        by (cases "ifc = HTMLAnchorElement")
           (simp_all add: addAnchorNode.simps split_beta Let_def)
    qed
    have "Pn ?n"
      unfolding Pn_def
    proof (intro allI impI)
      fix b assume Nn: "N ?n" and Ib: "I b"
      note F = flush [OF Ib]
      note A = anchor [unfolded Pa_def, rule_format, OF Nn Ib]
      let ?nm = "toLowerCase nm"
      consider (container) "?nm = ''body'' \<or> ?nm = ''ol'' \<or> ?nm = ''ul''"
        | (block) bt where "\<not> (?nm = ''body'' \<or> ?nm = ''ol'' \<or> ?nm = ''ul'')" "blockTypeMap b ?nm = Some bt"
        | (other) "\<not> (?nm = ''body'' \<or> ?nm = ''ol'' \<or> ?nm = ''ul'')" "blockTypeMap b ?nm = None"
        by (cases "blockTypeMap b ?nm") auto
      then show "I (snd (toBlockConfigsNode M ?n b)) \<and> (\<forall>c\<in>set (fst (toBlockConfigsNode M ?n b)). C c)"
      proof cases
        case container
        let ?b2 = "if ?nm = ''ol'' \<or> ?nm = ''ul'' then (snd (flushCurrentText M b))\<lparr>wrapper := ?nm\<rparr>
                   else snd (flushCurrentText M b)"
        have "I ?b2" using F wrap by simp
        from K [OF Nn this] show ?thesis
          using container F wrap
          by (auto simp: toBlockConfigsNode.simps [of M ?n b] split_beta Let_def)
      next
        case block
        let ?b1 = "snd (flushCurrentText M b)"
        let ?b2 = "?b1\<lparr>wrapper := (if ?nm = ''pre'' then ''pre'' else wrapper ?b1)\<rparr>"
        let ?bt = "resolveBlockType (disambiguate ?b2) ?nm (wrapper ?b2) bt"
        let ?b3 = "if experimentalTreeDataSupport M \<and> isHTMLElement ?n \<and>
                           (?bt = ''unordered-list-item'' \<or> ?bt = ''ordered-list-item'')
                        then ?b2\<lparr>currentDepth := getListItemDepth0 ?n\<rparr> else ?b2"
        let ?b4 = "?b3\<lparr>keysDrawn := Suc (keysDrawn ?b3)\<rparr>"
        have "I ?b2" using F wrap by simp
        then have "I ?b3" using depth by simp
        then have "I ?b4" using keys by simp
        note K4 = K [OF Nn this]
        note mk = make [OF K4 [THEN conjunct1] K4 [THEN conjunct2]]
        show ?thesis
          using block F mk wrap depth
          by (auto simp: toBlockConfigsNode.simps [of M ?n b] split_beta Let_def)
      next
        case other
        show ?thesis
        proof (cases "?nm = ''#text''")
          case True
          then show ?thesis using other tnode [OF Nn Ib]
            by (simp add: toBlockConfigsNode.simps [of M ?n b])
        next
          case notText: False
          show ?thesis
          proof (cases "isValidImage ?n")
            case True
            then show ?thesis using other notText img [OF Nn Ib]
              by (simp add: toBlockConfigsNode.simps [of M ?n b])
          next
            case notImg: False
            show ?thesis
            proof (cases "isValidAnchor ?n")
              case True
              then show ?thesis using other notText notImg A
                by (simp add: toBlockConfigsNode.simps [of M ?n b])
            next
              case notAnchor: False
              let ?st = "HTMLTagToInlineStyleMap ?nm"
              let ?b1 = "case ?st of Some st \<Rightarrow> addStyle st b | None \<Rightarrow> b"
              have "I ?b1" using Ib add by (simp split: option.splits)
              note K1 = K [OF Nn this]
              let ?b2 = "snd (toBlockConfigs M kids ?b1)"
              let ?b3 = "case ?st of Some st \<Rightarrow> removeStyle st ?b2 | None \<Rightarrow> ?b2"
              have "I ?b3" using K1 remove [OF Nn] by (simp split: option.splits)
              from upd [OF Nn this] show ?thesis
                using other notText notImg notAnchor K1
                by (simp add: toBlockConfigsNode.simps [of M ?n b] split_beta Let_def)
            qed
          qed
        qed
      qed
    qed
    then show ?case using anchor by simp
  qed
  show "(\<forall>n\<in>set ns. N n) \<Longrightarrow> I b \<Longrightarrow>
           I (snd (toBlockConfigs M ns b)) \<and> (\<forall>c\<in>set (fst (toBlockConfigs M ns b)). C c)"
    using list node by blast
  show "N n \<Longrightarrow> I b \<Longrightarrow>
           I (snd (toBlockConfigsNode M n b)) \<and> (\<forall>c\<in>set (fst (toBlockConfigsNode M n b)). C c)"
    using node [of n] by (simp add: Pn_def)
  show "N n \<Longrightarrow> I b \<Longrightarrow>
           I (snd (addAnchorNode M n b)) \<and> (\<forall>c\<in>set (fst (addAnchorNode M n b)). C c)"
    using node [of n] by (simp add: Pa_def)
qed

subsection \<open>One character list entry for each character\<close>

lemma cfgOk_sel:
  "cfgOk c \<longleftrightarrow> length (cfgCharacterList c) = length (cfgText c) \<and> (\<forall>k\<in>set (childConfigs c). cfgOk k)"
  by (cases c) simp

lemma trimCurrentText_length:
  assumes "length (characterList b) = length (currentText b)"
  shows "length (characterList (trimCurrentText b)) = length (currentText (trimCurrentText b))"
  using assms by (simp add: trimCurrentText_spec [OF assms] sliceList_def)

lemma trimCurrentText_frame:
  "blockConfigs (trimCurrentText b) = blockConfigs b"
  "currentStyle (trimCurrentText b) = currentStyle b"
  "contentBlocks (trimCurrentText b) = contentBlocks b"
  "entityMap (trimCurrentText b) = entityMap b"
  by (simp_all add: trimCurrentText_def Let_def)

lemma builderOk_trim: "builderOk b \<Longrightarrow> builderOk (trimCurrentText b)"
  by (simp add: builderOk_def trimCurrentText_length trimCurrentText_frame)

lemma builderOk_make:
  assumes "builderOk b" "\<forall>c\<in>set kids. cfgOk c"
  shows "builderOk (snd (makeBlockConfig M (Some (k, kids, t)) b))"
    and "cfgOk (fst (makeBlockConfig M (Some (k, kids, t)) b))"
    and "builderOk (snd (makeBlockConfig M None b))"
    and "cfgOk (fst (makeBlockConfig M None b))"
  using assms by (simp_all add: builderOk_def makeBlockConfig_def Let_def)

lemma builderOk_flush:
  assumes "builderOk b"
  shows "builderOk (snd (flushCurrentText M b)) \<and> (\<forall>c\<in>set (fst (flushCurrentText M b)). cfgOk c)"
  using builderOk_make(3,4) [OF builderOk_trim [OF assms], of "[]" M] builderOk_trim [OF assms]
  by (simp add: flushCurrentText_def Let_def split_beta)

lemma builderOk_appendText: "builderOk b \<Longrightarrow> builderOk (appendText s b)"
  by (simp add: builderOk_def appendText_def Let_def)

lemma builderOk_fields:
  "builderOk (b\<lparr>wrapper := w\<rparr>) = builderOk b"
  "builderOk (b\<lparr>currentDepth := d\<rparr>) = builderOk b"
  "builderOk (b\<lparr>keysDrawn := k\<rparr>) = builderOk b"
  "builderOk (b\<lparr>entityMap := r\<rparr>) = builderOk b"
  "builderOk (b\<lparr>currentEntity := e\<rparr>) = builderOk b"
  "builderOk (b\<lparr>currentStyle := st\<rparr>) = builderOk b"
  "builderOk (b\<lparr>contentBlocks := cb\<rparr>) = builderOk b"
  by (simp_all add: builderOk_def)

lemma builderOk_updateStyle: "builderOk b \<Longrightarrow> builderOk (updateStyleFromNodeAttributes n b)"
  by (simp add: updateStyleFromNodeAttributes_def Let_def addStyle_def removeStyle_def builderOk_fields)

lemma builderOk_walk:
  assumes "builderOk b"
  shows "builderOk (snd (toBlockConfigs M ns b)) \<and> (\<forall>c\<in>set (fst (toBlockConfigs M ns b)). cfgOk c)"
proof (rule walk_invariant(1) [where I = builderOk and C = cfgOk and N = "\<lambda>n. True"])
  show "builderOk b" by (rule assms)
qed (simp_all add: builderOk_flush builderOk_fields builderOk_updateStyle addStyle_def removeStyle_def
       addTextNode_def addImgNode_def Let_def split_beta builderOk_appendText
       builderOk_make builderOk_trim)

lemma builderOk_addDOMNode:
  assumes "builderOk b"
  shows "builderOk (addDOMNode M n b)"
proof -
  let ?b0 = "b\<lparr>contentBlocks := []\<rparr>"
  let ?w = "toBlockConfigs M [n] ?b0"
  let ?b2 = "(snd ?w)\<lparr>blockConfigs := blockConfigs (snd ?w) @ fst ?w\<rparr>"
  have w: "builderOk (snd ?w) \<and> (\<forall>c\<in>set (fst ?w). cfgOk c)"
    using assms by (intro builderOk_walk) (simp add: builderOk_fields)
  then have b2: "builderOk ?b2" by (auto simp: builderOk_def)
  note f = builderOk_flush [OF b2, of M]
  have "addDOMNode M n b =
      (snd (flushCurrentText M ?b2))\<lparr>blockConfigs :=
         blockConfigs (snd (flushCurrentText M ?b2)) @ fst (flushCurrentText M ?b2)\<rparr>"
    by (simp add: addDOMNode_def Let_def split_beta)
  then show ?thesis using f by (auto simp: builderOk_def)
qed

lemma extractFrom_length:
  "\<forall>c\<in>set cfgs. cfgOk c \<Longrightarrow> length cl = length tx \<Longrightarrow>
     length (snd (extractFrom tx cl cfgs)) = length (fst (extractFrom tx cl cfgs))"
proof (induction tx cl cfgs rule: extractFrom.induct)
  case (1 tx cl)
  then show ?case by simp
next
  case (2 tx cl config rest)
  have c: "length (cfgCharacterList config) = length (cfgText config)"
      "\<forall>k\<in>set (childConfigs config). cfgOk k"
    using "2.prems"(1) cfgOk_sel [of config] by auto
  let ?tx1 = "tx @ cfgText config"
  let ?cl1 = "cl @ map Some (cfgCharacterList config)"
  let ?sep = "?tx1 \<noteq> [] \<and> blockType config \<noteq> Some ''unstyled''"
  let ?tx2 = "if ?sep then ?tx1 @ [LF] else ?tx1"
  let ?cl2 = "if ?sep then ?cl1 @ [listLast ?cl1] else ?cl1"
  let ?ch = "extractFrom [] [] (childConfigs config)"
  have ch: "length (snd ?ch) = length (fst ?ch)"
    using c(2) by (intro "2.IH"(1) [OF refl refl refl refl refl]) simp_all
  have "length (?cl2 @ snd ?ch) = length (?tx2 @ fst ?ch)"
    using c(1) "2.prems"(2) ch by simp
  then have "length (snd (extractFrom (?tx2 @ fst ?ch) (?cl2 @ snd ?ch) rest)) =
        length (fst (extractFrom (?tx2 @ fst ?ch) (?cl2 @ snd ?ch) rest))"
    using "2.prems"(1) by (intro "2.IH"(2) [OF refl refl refl refl refl refl]) simp_all
  then show ?case by (simp add: Let_def)
qed

lemma toContentBlocksFrom_length:
  "\<forall>c\<in>set cfgs. cfgOk c \<Longrightarrow>
     \<forall>n\<in>set (snd (toContentBlocksFrom prev cfgs par)). length (nodeCharacterList n) = length (nodeText n)"
proof (induction prev cfgs par rule: toContentBlocksFrom.induct)
  case (1 prev par)
  then show ?case by simp
next
  case (2 prev config rest par)
  have c: "length (cfgCharacterList config) = length (cfgText config)"
      "\<forall>k\<in>set (childConfigs config). cfgOk k"
    using "2.prems" cfgOk_sel [of config] by auto
  have below: "\<forall>n\<in>set (snd (toContentBlocksFrom None (childConfigs config) (Some (cfgKey config)))).
      length (nodeCharacterList n) = length (nodeText n)"
    using c(2) by (intro "2.IH"(1) [OF refl refl]) simp_all
  have after: "\<forall>n\<in>set (snd (toContentBlocksFrom (Some (cfgKey config)) rest par)).
      length (nodeCharacterList n) = length (nodeText n)"
    using "2.prems" by (intro "2.IH"(2) [OF refl refl refl prod.collapse refl]) simp_all
  show ?case
    using c(1) below after by (auto simp: Let_def split_beta toNode_def)
qed

lemma flat_length:
  assumes "cfgOk c"
  shows "length (cbCharacterList (toFlatContentBlock c)) = length (cbText (toFlatContentBlock c))"
proof -
  have "length (snd (extractFrom [] [] (childConfigs c))) = length (fst (extractFrom [] [] (childConfigs c)))"
    using assms cfgOk_sel [of c] by (intro extractFrom_length) simp_all
  then show ?thesis
    using assms cfgOk_sel [of c]
    by (simp add: toFlatContentBlock_def extractTextFromBlockConfigs_def split_beta)
qed

lemma getContentBlocks_length:
  assumes "builderOk b" "contentBlocks b = []"
  shows "\<forall>blk\<in>set (fst (getContentBlocks M b)). length (blockCharacterList blk) = length (blockText blk)"
proof (cases "experimentalTreeDataSupport M")
  case True
  have "\<forall>n\<in>set (snd (toContentBlocksFrom None (blockConfigs b) None)).
      length (nodeCharacterList n) = length (nodeText n)"
    using assms(1) by (intro toContentBlocksFrom_length) (simp add: builderOk_def)
  then show ?thesis
    using True assms(2)
    by (auto simp: getContentBlocks_def Let_def split_beta toContentBlocks_def)
next
  case False
  then show ?thesis
    using assms flat_length
    by (auto simp: getContentBlocks_def Let_def toFlatContentBlocks_def builderOk_def)
qed

lemma flush_contentBlocks:
  "contentBlocks (snd (flushCurrentText M b)) = contentBlocks b"
  by (simp add: flushCurrentText_def Let_def split_beta makeBlockConfig_def trimCurrentText_frame)

lemma walk_contentBlocks:
  assumes "contentBlocks b = []"
  shows "contentBlocks (snd (toBlockConfigs M ns b)) = []"
proof -
  have "contentBlocks (snd (toBlockConfigs M ns b)) = [] \<and> (\<forall>c\<in>set (fst (toBlockConfigs M ns b)). True)"
  proof (rule walk_invariant(1) [where I = "\<lambda>b. contentBlocks b = []" and C = "\<lambda>c. True" and N = "\<lambda>n. True"])
    show "contentBlocks b = []" by (rule assms)
  qed (simp_all add: flush_contentBlocks updateStyleFromNodeAttributes_def addStyle_def removeStyle_def
       addTextNode_def addImgNode_def Let_def split_beta appendText_def makeBlockConfig_def
       trimCurrentText_frame)
  then show ?thesis by simp
qed

lemma addDOMNode_contentBlocks: "contentBlocks (addDOMNode M n b) = []"
  using walk_contentBlocks [of "b\<lparr>contentBlocks := []\<rparr>" M "[n]"]
  by (simp add: addDOMNode_def Let_def split_beta flush_contentBlocks)

lemma builderOk_newBuilder: "builderOk (newBuilder M btm dis)"
  by (simp add: builderOk_def newBuilder_def clear_def)

lemma builderOk_fold: "builderOk b \<Longrightarrow> builderOk (fold (addDOMNode M) ns b)"
  by (induction ns arbitrary: b) (simp_all add: builderOk_addDOMNode)

lemma contentBlocks_fold:
  "contentBlocks b = [] \<Longrightarrow> contentBlocks (fold (addDOMNode M) ns b) = []"
  by (induction ns arbitrary: b) (simp_all add: addDOMNode_contentBlocks)

text \<open>
  C3: every block that comes out has one character list entry for each code unit of its
  text, in flat and in hierarchical mode, for every block type map, every disambiguation
  function and every sequence of nodes added to a new builder, and so for every result of
  the conversion. The separators of flat mode are counted: each adds one character and
  one entry.
\<close>

theorem characterList_length:
  "(\<forall>blk\<in>set (fst (getContentBlocks M (fold (addDOMNode M) ns (newBuilder M btm dis)))).
      length (blockCharacterList blk) = length (blockText blk)) \<and>
   (\<forall>blocks entities.
      convertFromHTMLtoContentBlocks M html DOMBuilder blockRenderMap = Inr (Some (blocks, entities)) \<longrightarrow>
      (\<forall>blk\<in>set blocks. length (blockCharacterList blk) = length (blockText blk)))"
proof -
  have gen: "\<forall>blk\<in>set (fst (getContentBlocks M (fold (addDOMNode M) ns (newBuilder M btm dis)))).
      length (blockCharacterList blk) = length (blockText blk)" for ns btm dis
    by (intro getContentBlocks_length builderOk_fold builderOk_newBuilder contentBlocks_fold)
       (simp add: newBuilder_def clear_def)
  have "\<forall>blk\<in>set blocks. length (blockCharacterList blk) = length (blockText blk)"
    if conv: "convertFromHTMLtoContentBlocks M html DOMBuilder blockRenderMap = Inr (Some (blocks, entities))"
    for blocks entities
  proof -
    obtain safeBody where body: "DOMBuilder (sanitize html) = Some safeBody"
      using conv by (cases "DOMBuilder (sanitize html)") (auto simp: convertFromHTMLtoContentBlocks_def)
    obtain typeMap where tm: "buildBlockTypeMap blockRenderMap = Inr typeMap"
      using conv body
      by (cases "buildBlockTypeMap blockRenderMap") (auto simp: convertFromHTMLtoContentBlocks_def)
    have "blocks = fst (getContentBlocks M (fold (addDOMNode M) [safeBody]
        (newBuilder M typeMap defaultDisambiguate)))"
      using conv body tm by (auto simp: convertFromHTMLtoContentBlocks_def Let_def split: prod.splits)
    then show ?thesis using gen by blast
  qed
  then show ?thesis using gen by blast
qed

subsection \<open>Evaluation of the scenarios\<close>

lemma defaultBlockTypeMap_eq:
  "buildBlockTypeMap DefaultDraftBlockRenderMap =
     Inr (map_of [(''li'', Arr [''ordered-list-item'', ''unordered-list-item'']),
             (''p'', Str ''unstyled''), (''div'', Str ''unstyled''),
             (''pre'', Str ''code-block''), (''figure'', Str ''atomic''),
             (''blockquote'', Str ''blockquote''),
             (''h6'', Str ''header-six''), (''h5'', Str ''header-five''),
             (''h4'', Str ''header-four''), (''h3'', Str ''header-three''),
             (''h2'', Str ''header-two''), (''h1'', Str ''header-one'')])"
proof -
  have "buildBlockTypeMap DefaultDraftBlockRenderMap =
     Inr [''h1'' \<mapsto> Str ''header-one'', ''h2'' \<mapsto> Str ''header-two'',
          ''h3'' \<mapsto> Str ''header-three'', ''h4'' \<mapsto> Str ''header-four'',
          ''h5'' \<mapsto> Str ''header-five'', ''h6'' \<mapsto> Str ''header-six'',
          ''blockquote'' \<mapsto> Str ''blockquote'', ''figure'' \<mapsto> Str ''atomic'',
          ''pre'' \<mapsto> Str ''code-block'', ''div'' \<mapsto> Str ''unstyled'',
          ''p'' \<mapsto> Str ''unstyled'',
          ''li'' \<mapsto> Arr [''ordered-list-item'', ''unordered-list-item'']]"
    by (simp add: buildBlockTypeMap_def DefaultDraftBlockRenderMap_def addElement_def elementsOf_def
        objectPrototypeNames_def)
  then show ?thesis by simp
qed

lemma toLowerCase_simps:
  "toLowerCase ''BODY'' = ''body''" "toLowerCase ''P'' = ''p''" "toLowerCase ''IMG'' = ''img''"
  "toLowerCase ''LI'' = ''li''" "toLowerCase ''B'' = ''b''" "toLowerCase ''#text'' = ''#text''"
  "toLowerCase ''alt'' = ''alt''" "toLowerCase ''className'' = ''classname''"
  "toLowerCase ''height'' = ''height''" "toLowerCase ''src'' = ''src''"
  "toLowerCase ''width'' = ''width''"
  by (simp_all add: toLowerCase_def)

lemma trim_whitespace: "\<forall>c\<in>set ws. isWhiteSpace c \<Longrightarrow> trim ws = []"
proof -
  assume "\<forall>c\<in>set ws. isWhiteSpace c"
  then have l: "trimLeft ws = []" by (simp add: trimLeft_def)
  have r: "trimRight [] = []" by (simp add: trimRight_def)
  show ?thesis unfolding trim_def l by (rule r)
qed

lemmas walk_defs = convertFromHTMLtoContentBlocks_def elementNode_def imgNode_def textNode_def
  toBlockConfigsNode.simps addAnchorNode.simps defaultBlockTypeMap_eq
  toLowerCase_simps addDOMNode_def newBuilder_def clear_def flushCurrentText_def isValidImage_def
  isValidAnchor_def getAttribute_def getNamedItem_def truthy_def addImgNode_def addTextNode_def collectAttributes_def
  imgAttr_def List.map_filter_def entityCreate_def appendText_def imagePlaceholder_def
  trimCurrentText_def trimLeft_def trimRight_def isWhiteSpace_def getEntity_def sliceList_def
  makeBlockConfig_def getContentBlocks_def toContentBlocks_def toNode_def toFlatContentBlocks_def
  toFlatContentBlock_def extractTextFromBlockConfigs_def resolveBlockType_def orElse_def
  defaultDisambiguate_def isHTMLElement_def getListItemDepth0_def HTMLTagToInlineStyleMap_def
  addStyle_def removeStyle_def orderedSetAdd_def orderedSetRemove_def
  updateStyleFromNodeAttributes_def boldValues_def notBoldValues_def SPACE_def LF_def
  blockType_def listLast_def Let_def

lemma convert_supplier:
  "DOMBuilder (sanitize html) = Some t \<Longrightarrow>
     convertFromHTMLtoContentBlocks M html DOMBuilder rm =
     convertFromHTMLtoContentBlocks M html (\<lambda>s. Some t) rm"
  by (simp add: convertFromHTMLtoContentBlocks_def)

lemma img_eval:
  "convertFromHTMLtoContentBlocks M html (\<lambda>s. Some imgTree) DefaultDraftBlockRenderMap =
     Inr (Some ([if experimentalTreeDataSupport M
            then ContentBlockNode
               \<lparr>nodeKey = generateRandomKey M 0, nodeType = ''unstyled'', nodeText = imagePlaceholder,
                nodeCharacterList = [\<lparr>style = [], entity = Some (length (DraftEntity M))\<rparr>,
                                     \<lparr>style = [], entity = Some (length (DraftEntity M))\<rparr>],
                nodeDepth = 0, nodeParent = None, nodeChildren = [], nodePrevSibling = None,
                nodeNextSibling = None\<rparr>
            else ContentBlock
               \<lparr>cbKey = generateRandomKey M 0, cbType = ''unstyled'', cbText = imagePlaceholder,
                cbCharacterList = [Some \<lparr>style = [], entity = Some (length (DraftEntity M))\<rparr>,
                                   Some \<lparr>style = [], entity = Some (length (DraftEntity M))\<rparr>],
                cbDepth = 0\<rparr>],
           DraftEntity M @ [\<lparr>entityType = ''IMAGE'', mutability = ''MUTABLE'',
                              entityData = [(''src'', ''a.png'')]\<rparr>]))"
  by (simp add: imgTree_def walk_defs cong: let_weak_cong old.prod.case_cong_weak)

lemma blank_eval:
  assumes "\<forall>c\<in>set ws. isWhiteSpace c"
  shows "convertFromHTMLtoContentBlocks M html (\<lambda>s. Some (blankParagraph ws)) DefaultDraftBlockRenderMap =
     Inr (Some ([if experimentalTreeDataSupport M
            then ContentBlockNode
               \<lparr>nodeKey = generateRandomKey M 0, nodeType = ''unstyled'', nodeText = [],
                nodeCharacterList = [], nodeDepth = 0, nodeParent = None, nodeChildren = [],
                nodePrevSibling = None, nodeNextSibling = None\<rparr>
            else ContentBlock
               \<lparr>cbKey = generateRandomKey M 0, cbType = ''unstyled'', cbText = [],
                cbCharacterList = [], cbDepth = 0\<rparr>],
           DraftEntity M))"
  using trim_whitespace [OF assms]
  by (simp add: blankParagraph_def walk_defs cong: let_weak_cong old.prod.case_cong_weak)

lemma listItemParagraph_eval:
  "convertFromHTMLtoContentBlocks (exampleModules False) (fromAscii ''<li><p>a</p></li>'')
      (\<lambda>s. Some listItemParagraph) DefaultDraftBlockRenderMap =
     Inr (Some ([ContentBlock
              \<lparr>cbKey = ''k'', cbType = ''unordered-list-item'', cbText = [0x61, 0x0A],
               cbCharacterList = [Some \<lparr>style = [], entity = None\<rparr>,
                                  Some \<lparr>style = [], entity = None\<rparr>],
               cbDepth = 0\<rparr>], []))"
  by code_simp

theorem characterList_length_witness:
  "\<exists>blocks entities.
     convertFromHTMLtoContentBlocks (exampleModules False) (fromAscii ''<li><p>a</p></li>'')
        (\<lambda>s. Some listItemParagraph) DefaultDraftBlockRenderMap = Inr (Some (blocks, entities)) \<and>
     map blockText blocks = [[0x61, 0x0A]] \<and>
     list_all (\<lambda>blk. length (blockCharacterList blk) = length (blockText blk)) blocks"
  using characterList_length [of "exampleModules False" "[]" Map.empty defaultDisambiguate
      "fromAscii ''<li><p>a</p></li>''" "\<lambda>s. Some listItemParagraph" DefaultDraftBlockRenderMap]
  by (simp add: listItemParagraph_eval)

subsection \<open>Separators in flat mode\<close>

text \<open>
  C1: the descriptors carry their block type in the property \<open>type\<close>, and the test
  of the separator reads \<open>blockType\<close>, which no descriptor has. So the separator also
  follows a descendant of type "unstyled": the paragraph of \<open><li><p>a</p></li>\<close> is
  followed by a newline, and the one block of the list item has the text a, newline.
\<close>

theorem separator_after_unstyled:
  "extractTextFromBlockConfigs
     [BlockConfig ''kk'' ''unstyled'' [0x61] [\<lparr>style = [], entity = None\<rparr>] 0 None [] None None []] =
     ([0x61, 0x0A], [Some \<lparr>style = [], entity = None\<rparr>, Some \<lparr>style = [], entity = None\<rparr>]) \<and>
   convertFromHTMLtoContentBlocks (exampleModules False) (fromAscii ''<li><p>a</p></li>'')
      (\<lambda>s. Some listItemParagraph) DefaultDraftBlockRenderMap =
     Inr (Some ([ContentBlock
              \<lparr>cbKey = ''k'', cbType = ''unordered-list-item'', cbText = [0x61, 0x0A],
               cbCharacterList = [Some \<lparr>style = [], entity = None\<rparr>,
                                  Some \<lparr>style = [], entity = None\<rparr>],
               cbDepth = 0\<rparr>], []))"
proof -
  have "extractTextFromBlockConfigs
     [BlockConfig ''kk'' ''unstyled'' [0x61] [\<lparr>style = [], entity = None\<rparr>] 0 None [] None None []] =
     ([0x61, 0x0A], [Some \<lparr>style = [], entity = None\<rparr>, Some \<lparr>style = [], entity = None\<rparr>])"
    by (simp add: extractTextFromBlockConfigs_def blockType_def listLast_def LF_def)
  then show ?thesis using listItemParagraph_eval by simp
qed

subsection \<open>Style scoping\<close>

lemma noRemover_sel:
  "noRemover s n \<longleftrightarrow>
     HTMLTagToInlineStyleMap (toLowerCase (nodeName n)) \<noteq> Some s \<and> \<not> attrRemoves s n \<and>
     (\<forall>k\<in>set (childNodes n). noRemover s k)"
  by (cases n) simp




lemma cfgChars_sel:
  "cfgChars c = zip (cfgText c) (cfgCharacterList c) @ concat (map cfgChars (childConfigs c))"
  by (cases c) simp











lemma emitted_simps:
  "emitted [] b = pendingChars b"
  "emitted (c1 @ c2) b = concat (map cfgChars c1) @ emitted c2 b"
  by (simp_all add: emitted_def)









lemma active_fields:
  "active s (b\<lparr>wrapper := w\<rparr>) = active s b"
  "active s (b\<lparr>currentDepth := d\<rparr>) = active s b"
  "active s (b\<lparr>keysDrawn := k\<rparr>) = active s b"
  "active s (b\<lparr>entityMap := r\<rparr>) = active s b"
  "active s (b\<lparr>currentEntity := e\<rparr>) = active s b"
  by (simp_all add: active_def)







lemma scoped_nil_iff:
  "scoped s b [] b' \<longleftrightarrow> active s b' \<and> mixed s (pendingChars b) (pendingChars b')"
  by (simp add: scoped_def emitted_simps)







subsection \<open>Hierarchical mode\<close>

lemma linkForest_linkAt: "linkForest par cs = map (linkAt par cs) [0..<length cs]"
  by (subst linkForest.simps) (simp add: linkAt_def)

lemma toContentBlocksFrom_fst:
  "i \<le> length cs \<Longrightarrow> cfgs = drop i cs \<Longrightarrow>
   prev = (if 0 < i then Some (cfgKey (cs ! (i - 1))) else None) \<Longrightarrow>
     fst (toContentBlocksFrom prev cfgs par) = map (linkAt par cs) [i..<length cs]"
proof (induction prev cfgs par arbitrary: cs i rule: toContentBlocksFrom.induct)
  case (1 prev par)
  then show ?case by simp
next
  case (2 prev config rest par)
  have i: "i < length cs" using "2.prems" by (cases "i < length cs") auto
  have ci: "cs ! i = config" and rest: "rest = drop (Suc i) cs"
    using "2.prems"(2) i by (simp_all add: Cons_nth_drop_Suc [symmetric])
  have nxt: "(case rest of [] \<Rightarrow> None | nxt # _ \<Rightarrow> Some (cfgKey nxt)) =
      (if i + 1 < length cs then Some (cfgKey (cs ! (i + 1))) else None)"
  proof (cases "Suc i < length cs")
    case True
    then have "rest = cs ! Suc i # drop (Suc (Suc i)) cs"
      using rest by (simp add: Cons_nth_drop_Suc)
    then show ?thesis using True by simp
  next
    case False
    then show ?thesis using rest by simp
  qed
  have kids: "fst (toContentBlocksFrom None (childConfigs config) (Some (cfgKey config))) =
      linkForest (Some (cfgKey config)) (childConfigs config)"
    using "2.IH"(1) [OF refl refl, of 0 "childConfigs config"]
    by (simp add: linkForest_linkAt)
  have after: "fst (toContentBlocksFrom (Some (cfgKey config)) rest par) =
      map (linkAt par cs) [Suc i..<length cs]"
    using "2.IH"(2) [OF refl refl refl prod.collapse refl, of "Suc i" cs] i rest ci
    by simp
  have "[i..<length cs] = i # [Suc i..<length cs]"
    using i by (simp add: upt_conv_Cons)
  then show ?case
    using kids after nxt ci "2.prems"(3)
    by (simp add: Let_def split_beta linkAt_def)
qed

lemma toContentBlocksFrom_snd:
  "snd (toContentBlocksFrom prev cfgs par) = map toNode (preorderConfigs (fst (toContentBlocksFrom prev cfgs par)))"
proof (induction prev cfgs par rule: toContentBlocksFrom.induct)
  case (1 prev par)
  then show ?case by simp
next
  case (2 prev config rest par)
  note kids = "2.IH"(1) [OF refl refl]
  note after = "2.IH"(2) [OF refl refl refl prod.collapse refl]
  show ?case
    using kids after by (simp add: Let_def split_beta toNode_def)
qed

lemma parentsFirst_mono:
  "set seen \<subseteq> set seen' \<Longrightarrow> parentsFirst par seen ns \<Longrightarrow> parentsFirst par seen' ns"
proof (induction ns arbitrary: seen seen')
  case Nil
  then show ?case by simp
next
  case (Cons n ns)
  have "set (nodeKey n # seen) \<subseteq> set (nodeKey n # seen')"
    using Cons.prems(1) by auto
  moreover have "parentsFirst par (nodeKey n # seen) ns"
    using Cons.prems(2) by simp
  ultimately have "parentsFirst par (nodeKey n # seen') ns"
    by (rule Cons.IH)
  then show ?case using Cons.prems by auto
qed

lemma parentsFirst_par:
  "k \<in> set seen \<Longrightarrow> parentsFirst (Some k) seen ns \<Longrightarrow> parentsFirst par seen ns"
  by (induction ns arbitrary: seen) auto

lemma parentsFirst_append:
  "parentsFirst par seen xs \<Longrightarrow> parentsFirst par (rev (map nodeKey xs) @ seen) ys \<Longrightarrow>
     parentsFirst par seen (xs @ ys)"
  by (induction xs arbitrary: seen) auto

lemma toContentBlocksFrom_parentsFirst:
  "parentsFirst par [] (snd (toContentBlocksFrom prev cfgs par))"
proof (induction prev cfgs par rule: toContentBlocksFrom.induct)
  case (1 prev par)
  then show ?case by simp
next
  case (2 prev config rest par)
  let ?k = "cfgKey config"
  let ?below = "snd (toContentBlocksFrom None (childConfigs config) (Some ?k))"
  let ?after = "snd (toContentBlocksFrom (Some ?k) rest par)"
  have "parentsFirst (Some ?k) [] ?below"
    using "2.IH"(1) [OF refl refl] .
  then have "parentsFirst (Some ?k) [?k] ?below"
    by (rule parentsFirst_mono [rotated]) simp
  then have below: "parentsFirst par [?k] ?below"
    by (rule parentsFirst_par [rotated]) simp
  have "parentsFirst par [] ?after"
    using "2.IH"(2) [OF refl refl refl prod.collapse refl] .
  then have "parentsFirst par (rev (map nodeKey ?below) @ [?k]) ?after"
    by (rule parentsFirst_mono [rotated]) simp
  with below have "parentsFirst par [?k] (?below @ ?after)"
    by (rule parentsFirst_append)
  then show ?case
    by (simp add: Let_def split_beta toNode_def)
qed

lemma parentsFirst_index:
  "parentsFirst par seen ns \<Longrightarrow> i < length ns \<Longrightarrow> nodeParent (ns ! i) = Some p \<Longrightarrow>
   par \<noteq> Some p \<Longrightarrow> p \<notin> set seen \<Longrightarrow> \<exists>j<i. nodeKey (ns ! j) = p"
proof (induction ns arbitrary: seen i)
  case Nil
  then show ?case by simp
next
  case (Cons n ns)
  show ?case
  proof (cases i)
    case 0
    then show ?thesis using Cons.prems by auto
  next
    case (Suc i')
    show ?thesis
    proof (cases "p = nodeKey n")
      case True
      then show ?thesis using Suc by auto
    next
      case False
      have "\<exists>j<i'. nodeKey (ns ! j) = p"
      proof (rule Cons.IH [of "nodeKey n # seen"])
        show "parentsFirst par (nodeKey n # seen) ns" using Cons.prems(1) by simp
        show "i' < length ns" using Cons.prems(2) Suc by simp
        show "nodeParent (ns ! i') = Some p" using Cons.prems(3) Suc by simp
        show "par \<noteq> Some p" by (rule Cons.prems(4))
        show "p \<notin> set (nodeKey n # seen)" using Cons.prems(5) False by simp
      qed
      then obtain j where "j < i'" "nodeKey (ns ! j) = p" by blast
      then have "Suc j < i \<and> nodeKey ((n # ns) ! Suc j) = p" using Suc by simp
      then show ?thesis by blast
    qed
  qed
qed

lemma toContentBlocksFrom_keys:
  "map cfgKey (preorderConfigs (fst (toContentBlocksFrom prev cfgs par))) = map cfgKey (preorderConfigs cfgs)"
proof (induction prev cfgs par rule: toContentBlocksFrom.induct)
  case (1 prev par)
  then show ?case by simp
next
  case (2 prev config rest par)
  note kids = "2.IH"(1) [OF refl refl]
  note after = "2.IH"(2) [OF refl refl refl prod.collapse refl]
  show ?case
    using kids after by (simp add: Let_def split_beta)
qed

text \<open>
  C6: in hierarchical mode the descriptors get the links of \<open>linkForest\<close>: the keys of
  the neighbours in the same parent (null at the ends), the keys of the immediate child
  descriptors, the key of the enclosing descriptor as parent (null at top level). One
  node is pushed for each descriptor, in depth-first pre-order, with these links; so the
  keys of the output are the keys of the forest in pre-order, and a node whose parent is
  \<open>p\<close> comes after a node with the key \<open>p\<close>.
\<close>

theorem toContentBlocks_links:
  "fst (toContentBlocks cfgs None) = linkForest None cfgs \<and>
   snd (toContentBlocks cfgs None) = map toNode (preorderConfigs (linkForest None cfgs)) \<and>
   map nodeKey (snd (toContentBlocks cfgs None)) = map cfgKey (preorderConfigs cfgs) \<and>
   (\<forall>i<length (snd (toContentBlocks cfgs None)). \<forall>p.
      nodeParent (snd (toContentBlocks cfgs None) ! i) = Some p \<longrightarrow>
      (\<exists>j<i. nodeKey (snd (toContentBlocks cfgs None) ! j) = p))"
proof -
  have a: "fst (toContentBlocks cfgs None) = linkForest None cfgs"
    using toContentBlocksFrom_fst [of 0 cfgs cfgs None None]
    by (simp add: toContentBlocks_def linkForest_linkAt)
  have b: "snd (toContentBlocks cfgs None) = map toNode (preorderConfigs (linkForest None cfgs))"
    using toContentBlocksFrom_snd [of None cfgs None] a by (simp add: toContentBlocks_def)
  have k: "map nodeKey (map toNode xs) = map cfgKey xs" for xs
    by (induction xs) (simp_all add: toNode_def)
  have c: "map nodeKey (snd (toContentBlocks cfgs None)) = map cfgKey (preorderConfigs cfgs)"
    unfolding toContentBlocks_def
    by (subst toContentBlocksFrom_snd) (simp only: k toContentBlocksFrom_keys)
  have d: "\<exists>j<i. nodeKey (snd (toContentBlocks cfgs None) ! j) = p"
    if "i < length (snd (toContentBlocks cfgs None))"
      "nodeParent (snd (toContentBlocks cfgs None) ! i) = Some p" for i p
    using toContentBlocksFrom_parentsFirst [of None None cfgs] that
    by (intro parentsFirst_index [where par = None and seen = "[]"])
       (simp_all add: toContentBlocks_def)
  show ?thesis using a b c d by blast
qed

lemma exampleForest_nodes:
  "snd (toContentBlocks exampleForest None) =
     [\<lparr>nodeKey = ''a'', nodeType = ''unordered-list-item'', nodeText = [],
         nodeCharacterList = [], nodeDepth = 0, nodeParent = None,
         nodeChildren = [''b'', ''c''], nodePrevSibling = None, nodeNextSibling = Some ''d''\<rparr>,
      \<lparr>nodeKey = ''b'', nodeType = ''unstyled'', nodeText = [0x78],
         nodeCharacterList = [\<lparr>style = [], entity = None\<rparr>], nodeDepth = 0,
         nodeParent = Some ''a'', nodeChildren = [], nodePrevSibling = None,
         nodeNextSibling = Some ''c''\<rparr>,
      \<lparr>nodeKey = ''c'', nodeType = ''unstyled'', nodeText = [0x79],
         nodeCharacterList = [\<lparr>style = [], entity = None\<rparr>], nodeDepth = 0,
         nodeParent = Some ''a'', nodeChildren = [], nodePrevSibling = Some ''b'',
         nodeNextSibling = None\<rparr>,
      \<lparr>nodeKey = ''d'', nodeType = ''unstyled'', nodeText = [0x7A],
         nodeCharacterList = [\<lparr>style = [], entity = None\<rparr>], nodeDepth = 0,
         nodeParent = None, nodeChildren = [], nodePrevSibling = Some ''a'',
         nodeNextSibling = None\<rparr>]"
  by (simp add: exampleForest_def toContentBlocks_def toNode_def Let_def)

theorem toContentBlocks_links_witness:
  "map nodeKey (snd (toContentBlocks exampleForest None)) = [''a'', ''b'', ''c'', ''d''] \<and>
   map cfgKey (preorderConfigs exampleForest) = [''a'', ''b'', ''c'', ''d''] \<and>
   map nodeParent (snd (toContentBlocks exampleForest None)) = [None, Some ''a'', Some ''a'', None] \<and>
   map nodePrevSibling (snd (toContentBlocks exampleForest None)) = [None, None, Some ''b'', Some ''a''] \<and>
   map nodeNextSibling (snd (toContentBlocks exampleForest None)) = [Some ''d'', Some ''c'', None, None] \<and>
   map nodeChildren (snd (toContentBlocks exampleForest None)) = [[''b'', ''c''], [], [], []]"
proof -
  have "map nodeKey (snd (toContentBlocks exampleForest None)) = map cfgKey (preorderConfigs exampleForest)"
    using toContentBlocks_links [of exampleForest] by (rule conjunct1 [OF conjunct2 [OF conjunct2]])
  then show ?thesis by (simp add: exampleForest_nodes)
qed

subsection \<open>A paragraph of whitespace\<close>

text \<open>
  C5, as stated, fails: the single space of the text node is trimmed away when the
  paragraph is closed, so the block of \<open><p>   </p>\<close> has the empty text.
\<close>

theorem blank_paragraph_not_space:
  "\<not> (\<exists>block entities.
        convertFromHTMLtoContentBlocks (exampleModules False) (fromAscii ''<p>   </p>'')
          (\<lambda>s. Some (blankParagraph [0x20, 0x20, 0x20])) DefaultDraftBlockRenderMap =
          Inr (Some ([block], entities)) \<and>
        blockText block = SPACE)"
proof -
  have "convertFromHTMLtoContentBlocks (exampleModules False) (fromAscii ''<p>   </p>'')
          (\<lambda>s. Some (blankParagraph [0x20, 0x20, 0x20])) DefaultDraftBlockRenderMap =
        Inr (Some ([ContentBlock \<lparr>cbKey = ''k'', cbType = ''unstyled'', cbText = [],
                 cbCharacterList = [], cbDepth = 0\<rparr>], []))"
    by code_simp
  then show ?thesis by (simp add: SPACE_def)
qed

text \<open>
  C5, amended: an input whose only content is whitespace inside a paragraph yields
  exactly one block, of empty text and empty character list.
\<close>

theorem blank_paragraph_empty:
  assumes "\<forall>c\<in>set ws. isWhiteSpace c"
    and "DOMBuilder (sanitize html) = Some (blankParagraph ws)"
  shows "\<exists>block.
     convertFromHTMLtoContentBlocks M html DOMBuilder DefaultDraftBlockRenderMap =
       Inr (Some ([block], DraftEntity M)) \<and>
     blockText block = [] \<and> blockCharacterList block = []"
  unfolding convert_supplier [where DOMBuilder = DOMBuilder and html = html, OF assms(2)]
    blank_eval [OF assms(1)]
  by simp

theorem blank_paragraph_empty_witness:
  "list_all isWhiteSpace [0x20, 0x20, 0x20] \<and>
   (\<exists>block.
     convertFromHTMLtoContentBlocks (exampleModules True) (fromAscii ''<p>   </p>'')
       (\<lambda>s. Some (blankParagraph [0x20, 0x20, 0x20])) DefaultDraftBlockRenderMap =
       Inr (Some ([block], [])) \<and>
     blockText block = [] \<and> blockCharacterList block = [])"
  using blank_paragraph_empty [of "[0x20, 0x20, 0x20]" "\<lambda>s. Some (blankParagraph [0x20, 0x20, 0x20])"
      "fromAscii ''<p>   </p>''" "exampleModules True"]
  by (simp add: isWhiteSpace_def exampleModules_def)

subsection \<open>An image\<close>

text \<open>
  C8: the input \<open><img src="a.png">\<close> yields exactly one block; its text is the image
  placeholder U+1F4F7, one character of two code units; each entry of its character list
  refers to the one entity registered by the conversion, an IMAGE entity, mutable, whose
  attributes are \<open>src = a.png\<close>.
\<close>

theorem image_block:
  assumes "DOMBuilder (sanitize html) = Some imgTree"
  shows "\<exists>block.
     convertFromHTMLtoContentBlocks M html DOMBuilder DefaultDraftBlockRenderMap =
       Inr (Some ([block],
             DraftEntity M @ [\<lparr>entityType = ''IMAGE'', mutability = ''MUTABLE'',
                                entityData = [(''src'', ''a.png'')]\<rparr>])) \<and>
     blockText block = [0xD83D, 0xDCF7] \<and>
     blockCharacterList block =
       [Some \<lparr>style = [], entity = Some (length (DraftEntity M))\<rparr>,
        Some \<lparr>style = [], entity = Some (length (DraftEntity M))\<rparr>]"
  unfolding convert_supplier [where DOMBuilder = DOMBuilder and html = html, OF assms] img_eval
  by (simp add: imagePlaceholder_def)

theorem image_block_witness:
  "\<exists>block.
     convertFromHTMLtoContentBlocks (exampleModules False) (fromAscii ''<img src=a.png>'')
       (\<lambda>s. Some imgTree) DefaultDraftBlockRenderMap =
       Inr (Some ([block], [\<lparr>entityType = ''IMAGE'', mutability = ''MUTABLE'',
                         entityData = [(''src'', ''a.png'')]\<rparr>])) \<and>
     blockText block = [0xD83D, 0xDCF7] \<and>
     blockCharacterList block =
       [Some \<lparr>style = [], entity = Some 0\<rparr>, Some \<lparr>style = [], entity = Some 0\<rparr>]"
  using image_block [of "\<lambda>s. Some imgTree" "fromAscii ''<img src=a.png>''" "exampleModules False"]
  by (simp add: exampleModules_def)

subsection \<open>The outcomes of the entry point\<close>








end
